theory Spec2Isabelle
  imports Main "HOL-Library.Log_Nat"
begin

section \<open>Python values\<close>

text \<open>
  The dashboard script \<^verbatim>\<open>stock_dashboard.py\<close> reads a dictionary of profile fields
  from the market-data provider and formats them. The values it meets are the JSON
  scalars the provider delivers: \<^verbatim>\<open>None\<close>, strings, integers (unbounded) and floats
  (IEEE binary64). An exception that the script does not catch ends the run; the
  classes that the modelled operations raise are listed in \<open>py_exception\<close>.
\<close>

datatype py_exception = ZeroDivisionError | OverflowError | TypeError | ValueError

text \<open>
  A float is a finite binary64 value (kept as the rational it denotes, positive zero
  being \<open>Finite 0\<close>), negative zero, an infinity or a NaN.
\<close>

datatype pyfloat = Finite rat | NegZero | PInf | NInf | NaN

datatype pyval = PNone | PStr string | PInt int | PFloat pyfloat

subsection \<open>Rounding to binary64\<close>

definition round_half_even :: "rat \<Rightarrow> int" where
  "round_half_even q =
     (let f = \<lfloor>q\<rfloor>; r = q - of_int f
      in if r < 1 / 2 then f else if 1 / 2 < r then f + 1
         else if even f then f else f + 1)"

text \<open>
  Powers of two with an integer exponent, by repeated squaring (\<open>exp2 e = 2\<^sup>e\<close>, see
  \<open>exp2_eq\<close> below).
\<close>

function two_pow :: "int \<Rightarrow> int" where
  "two_pow k =
     (if k \<le> 0 then 1
      else let h = two_pow (k div 2) in if even k then h * h else 2 * (h * h))"
  by pat_completeness auto
termination
  by (relation "measure nat") auto

declare two_pow.simps [simp del]

definition exp2 :: "int \<Rightarrow> rat" where
  "exp2 e = (if 0 \<le> e then of_int (two_pow e) else 1 / of_int (two_pow (- e)))"

text \<open>\<open>ilog2 q\<close> is \<open>\<lfloor>log\<^sub>2 q\<rfloor>\<close> for a positive rational.\<close>

definition ilog2 :: "rat \<Rightarrow> int" where
  "ilog2 q =
     (let k = bitlen (fst (quotient_of q)) - bitlen (snd (quotient_of q))
      in if exp2 k \<le> q then k else k - 1)"

text \<open>
  Round-to-nearest, ties-to-even, with 53 significant bits, the subnormal quantum
  \<open>2\<^sup>-\<^sup>1\<^sup>0\<^sup>7\<^sup>4\<close> and overflow to an infinity at \<open>2\<^sup>1\<^sup>0\<^sup>2\<^sup>4\<close>.
\<close>

definition round_double :: "rat \<Rightarrow> pyfloat" where
  "round_double q =
     (if q = 0 then Finite 0
      else
        let e = max (ilog2 \<bar>q\<bar> - 52) (- 1074);
            m = round_half_even (\<bar>q\<bar> / exp2 e);
            v = of_int m * exp2 e
        in if exp2 1024 \<le> v then (if q < 0 then NInf else PInf)
           else if m = 0 then (if q < 0 then NegZero else Finite 0)
           else Finite (if q < 0 then - v else v))"

subsection \<open>Float and integer arithmetic\<close>

definition is_zero :: "pyfloat \<Rightarrow> bool" where
  "is_zero x = (x = Finite 0 \<or> x = NegZero)"

fun sign_bit :: "pyfloat \<Rightarrow> bool" where
  "sign_bit (Finite q) = (q < 0)"
| "sign_bit NegZero = True"
| "sign_bit PInf = False"
| "sign_bit NInf = True"
| "sign_bit NaN = False"

definition signed_zero :: "bool \<Rightarrow> pyfloat" where
  "signed_zero neg = (if neg then NegZero else Finite 0)"

definition signed_inf :: "bool \<Rightarrow> pyfloat" where
  "signed_inf neg = (if neg then NInf else PInf)"

fun is_inf :: "pyfloat \<Rightarrow> bool" where
  "is_inf PInf = True"
| "is_inf NInf = True"
| "is_inf _ = False"

fun rat_of_float :: "pyfloat \<Rightarrow> rat" where
  "rat_of_float (Finite q) = q"
| "rat_of_float _ = 0"

text \<open>
  \<^verbatim>\<open>x / y\<close> on two floats: Python raises \<^verbatim>\<open>ZeroDivisionError\<close> for a zero divisor
  of either sign, before looking at the dividend; otherwise the IEEE quotient.
\<close>

definition float_div :: "pyfloat \<Rightarrow> pyfloat \<Rightarrow> py_exception + pyfloat" where
  "float_div x y =
     (if is_zero y then Inl ZeroDivisionError
      else if x = NaN \<or> y = NaN then Inr NaN
      else if is_inf x then (if is_inf y then Inr NaN else Inr (signed_inf (sign_bit x \<noteq> sign_bit y)))
      else if is_inf y \<or> is_zero x then Inr (signed_zero (sign_bit x \<noteq> sign_bit y))
      else Inr (round_double (rat_of_float x / rat_of_float y)))"

text \<open>\<^verbatim>\<open>x - y\<close> and \<^verbatim>\<open>x * y\<close> on floats never raise.\<close>

definition float_sub :: "pyfloat \<Rightarrow> pyfloat \<Rightarrow> pyfloat" where
  "float_sub x y =
     (if x = NaN \<or> y = NaN then NaN
      else if is_inf x then (if is_inf y \<and> sign_bit x = sign_bit y then NaN else x)
      else if is_inf y then signed_inf (\<not> sign_bit y)
      else if is_zero x \<and> is_zero y then signed_zero (sign_bit x \<and> \<not> sign_bit y)
      else round_double (rat_of_float x - rat_of_float y))"

definition float_mul :: "pyfloat \<Rightarrow> pyfloat \<Rightarrow> pyfloat" where
  "float_mul x y =
     (if x = NaN \<or> y = NaN then NaN
      else if is_inf x \<or> is_inf y then
        (if is_zero x \<or> is_zero y then NaN else signed_inf (sign_bit x \<noteq> sign_bit y))
      else if is_zero x \<or> is_zero y then signed_zero (sign_bit x \<noteq> sign_bit y)
      else round_double (rat_of_float x * rat_of_float y))"

text \<open>
  \<^verbatim>\<open>float(n)\<close> for an integer: the nearest double, or \<^verbatim>\<open>OverflowError\<close> when the
  integer is too large.
\<close>

definition float_of_int :: "int \<Rightarrow> py_exception + pyfloat" where
  "float_of_int n =
     (let x = round_double (of_int n) in if is_inf x then Inl OverflowError else Inr x)"

text \<open>
  \<^verbatim>\<open>a / b\<close> on two integers is true division: the correctly rounded quotient,
  \<^verbatim>\<open>ZeroDivisionError\<close> for \<open>b = 0\<close>, \<^verbatim>\<open>OverflowError\<close> when the quotient is
  too large for a double, and a zero that carries the sign of the operands.
\<close>

definition int_truediv :: "int \<Rightarrow> int \<Rightarrow> py_exception + pyfloat" where
  "int_truediv a b =
     (if b = 0 then Inl ZeroDivisionError
      else if a = 0 then Inr (signed_zero (b < 0))
      else let x = round_double (of_int a / of_int b)
           in if is_inf x then Inl OverflowError else Inr x)"

fun is_number :: "pyval \<Rightarrow> bool" where
  "is_number (PInt _) = True"
| "is_number (PFloat _) = True"
| "is_number _ = False"

fun to_float :: "pyval \<Rightarrow> py_exception + pyfloat" where
  "to_float (PInt n) = float_of_int n"
| "to_float (PFloat x) = Inr x"
| "to_float _ = Inl TypeError"

definition py_truediv :: "pyval \<Rightarrow> pyval \<Rightarrow> py_exception + pyfloat" where
  "py_truediv a b =
     (if \<not> is_number a \<or> \<not> is_number b then Inl TypeError
      else case (a, b) of
        (PInt m, PInt n) \<Rightarrow> int_truediv m n
      | _ \<Rightarrow> (case to_float a of
                Inl e \<Rightarrow> Inl e
              | Inr x \<Rightarrow> (case to_float b of Inl e \<Rightarrow> Inl e | Inr y \<Rightarrow> float_div x y)))"

text \<open>\<^verbatim>\<open>num >= k\<close> against an integer literal: exact on numbers, a type error otherwise.\<close>

fun py_ge :: "pyval \<Rightarrow> int \<Rightarrow> py_exception + bool" where
  "py_ge (PInt n) k = Inr (k \<le> n)"
| "py_ge (PFloat (Finite q)) k = Inr (of_int k \<le> q)"
| "py_ge (PFloat NegZero) k = Inr (k \<le> 0)"
| "py_ge (PFloat PInf) k = Inr True"
| "py_ge (PFloat NInf) k = Inr False"
| "py_ge (PFloat NaN) k = Inr False"
| "py_ge _ k = Inl TypeError"

text \<open>Truth value of a Python value, as \<^verbatim>\<open>if\<close> and \<^verbatim>\<open>and\<close> test it.\<close>

fun py_truthy :: "pyval \<Rightarrow> bool" where
  "py_truthy PNone = False"
| "py_truthy (PStr s) = (s \<noteq> [])"
| "py_truthy (PInt n) = (n \<noteq> 0)"
| "py_truthy (PFloat x) = (\<not> is_zero x)"

subsection \<open>Formatting\<close>

definition digit_char :: "int \<Rightarrow> char" where
  "digit_char d =
     (if d = 0 then CHR ''0'' else if d = 1 then CHR ''1'' else if d = 2 then CHR ''2''
      else if d = 3 then CHR ''3'' else if d = 4 then CHR ''4'' else if d = 5 then CHR ''5''
      else if d = 6 then CHR ''6'' else if d = 7 then CHR ''7'' else if d = 8 then CHR ''8''
      else CHR ''9'')"

text \<open>The decimal digits of a non-negative integer, as \<^verbatim>\<open>str\<close> prints them.\<close>

function str_digits :: "int \<Rightarrow> string" where
  "str_digits n =
     (if n < 10 then [digit_char n] else str_digits (n div 10) @ [digit_char (n mod 10)])"
  by pat_completeness auto
termination
  by (relation "measure nat") auto

declare str_digits.simps [simp del]

definition str_int :: "int \<Rightarrow> string" where
  "str_int i = (if i < 0 then ''-'' @ str_digits (- i) else str_digits i)"

text \<open>
  The format specification \<^verbatim>\<open>.2f\<close>: the exact value of the double, rounded half-even
  to two places, a minus sign for every value with the sign bit set, never a plus sign.
\<close>

definition fixed2 :: "rat \<Rightarrow> string" where
  "fixed2 q =
     (let n = round_half_even (q * 100)
      in str_digits (n div 100) @ ''.'' @ [digit_char (n mod 100 div 10), digit_char (n mod 10)])"

fun float_format_2f :: "pyfloat \<Rightarrow> string" where
  "float_format_2f (Finite q) = (if q < 0 then ''-'' @ fixed2 (- q) else fixed2 q)"
| "float_format_2f NegZero = ''-0.00''"
| "float_format_2f PInf = ''inf''"
| "float_format_2f NInf = ''-inf''"
| "float_format_2f NaN = ''nan''"

fun format_2f :: "pyval \<Rightarrow> py_exception + string" where
  "format_2f (PInt n) = map_sum id float_format_2f (float_of_int n)"
| "format_2f (PFloat x) = Inr (float_format_2f x)"
| "format_2f PNone = Inl TypeError"
| "format_2f (PStr s) = Inl ValueError"

text \<open>
  Text handed to the rendering boundary. The script interpolates profile values with
  \<^verbatim>\<open>str()\<close> and formats the volume with \<^verbatim>\<open>:,\<close>; for a float both print Python's
  shortest round-trip representation, which is kept symbolic here.
\<close>

datatype piece = Lit string | FloatRepr pyfloat | FloatGrouped pyfloat

type_synonym pytext = "piece list"

fun py_str :: "pyval \<Rightarrow> pytext" where
  "py_str PNone = [Lit ''None'']"
| "py_str (PStr s) = [Lit s]"
| "py_str (PInt n) = [Lit (str_int n)]"
| "py_str (PFloat x) = [FloatRepr x]"

fun chunk3 :: "'a list \<Rightarrow> 'a list list" where
  "chunk3 (a # b # c # d # xs) = [a, b, c] # chunk3 (d # xs)"
| "chunk3 xs = [xs]"

fun join_commas :: "string list \<Rightarrow> string" where
  "join_commas [] = []"
| "join_commas [x] = x"
| "join_commas (x # y # ys) = x @ '','' @ join_commas (y # ys)"

definition group_thousands :: "string \<Rightarrow> string" where
  "group_thousands ds = rev (join_commas (chunk3 (rev ds)))"

fun format_grouped :: "pyval \<Rightarrow> py_exception + pytext" where
  "format_grouped (PInt n) =
     Inr [Lit ((if n < 0 then ''-'' else []) @ group_thousands (str_digits \<bar>n\<bar>))]"
| "format_grouped (PFloat x) = Inr [FloatGrouped x]"
| "format_grouped PNone = Inl TypeError"
| "format_grouped (PStr s) = Inl ValueError"

section \<open>The provider, the widgets and the rendering boundary\<close>

text \<open>
  The \<^verbatim>\<open>info\<close> dictionary of a ticker, in insertion order; \<open>info_has\<close> is
  \<^verbatim>\<open>key in info\<close> and \<open>info_get\<close> is \<^verbatim>\<open>info.get(key, default)\<close>.
\<close>

type_synonym info = "(string \<times> pyval) list"

definition info_has :: "info \<Rightarrow> string \<Rightarrow> bool" where
  "info_has info k = (map_of info k \<noteq> None)"

definition info_get :: "info \<Rightarrow> string \<Rightarrow> pyval \<Rightarrow> pyval" where
  "info_get info k d = (case map_of info k of None \<Rightarrow> d | Some v \<Rightarrow> v)"

text \<open>
  A \<^verbatim>\<open>datetime\<close> is counted in microseconds since 0001-01-01T00:00:00, the smallest
  value of the type; the largest is 9999-12-31T23:59:59.999999. Subtracting a
  \<^verbatim>\<open>timedelta\<close> raises \<^verbatim>\<open>OverflowError\<close> when the result leaves that range.
\<close>

type_synonym datetime = int

definition timedelta_days :: "int \<Rightarrow> int" where
  "timedelta_days d = d * 86400000000"

definition datetime_max :: datetime where
  "datetime_max = timedelta_days 3652059 - 1"

definition datetime_sub :: "datetime \<Rightarrow> int \<Rightarrow> py_exception + datetime" where
  "datetime_sub t d =
     (let r = t - d in if 0 \<le> r \<and> r \<le> datetime_max then Inr r else Inl OverflowError)"

text \<open>The historical series: a data frame of OHLCV rows, ordered by date.\<close>

record ohlcv =
  row_date :: datetime
  row_open :: pyfloat
  row_high :: pyfloat
  row_low :: pyfloat
  row_close :: pyfloat
  row_volume :: int

type_synonym dataframe = "ohlcv list"

text \<open>
  The market-data provider (the \<^verbatim>\<open>yfinance\<close> library) is a parameter of the model.
  \<open>ticker_info sym\<close> is \<^verbatim>\<open>yf.Ticker(sym).info\<close>: it raises an exception with the
  given message (\<open>Inl\<close>), or returns \<^verbatim>\<open>None\<close> or a dictionary. \<open>ticker_history\<close>
  is \<^verbatim>\<open>ticker.history(start=..., end=...)\<close>.
\<close>

record provider =
  ticker_info :: "string \<Rightarrow> string + info option"
  ticker_history :: "string \<Rightarrow> datetime \<Rightarrow> datetime \<Rightarrow> string + dataframe"

text \<open>
  What a run of the script does, in order: the calls it makes to the provider and the
  content it hands to Streamlit. Page configuration, sidebar, title, columns, spinner
  and the drawing of the input widgets do not depend on the inputs and are left out.
\<close>

datatype event =
    CallInfo string
  | CallHistory string datetime datetime
  | StError string
  | StWarning string
  | StSubheader string
  | StMarkdown pytext
  | StMetric string pytext "pytext option"
  | StPlotlyChart pytext "(datetime \<times> pyfloat) list"
  | StDataframe dataframe

text \<open>
  A run is the list of its events and the exception that ended it, if one did. The
  script is re-executed from the top on every interaction, so a run is a function of
  the widget values, the clock and the provider.
\<close>

type_synonym trace = "event list \<times> py_exception option"

definition emit :: "event list \<Rightarrow> trace" where
  "emit evs = (evs, None)"

definition raise :: "py_exception \<Rightarrow> trace" where
  "raise e = ([], Some e)"

definition then_do :: "trace \<Rightarrow> trace \<Rightarrow> trace" where
  "then_do a b = (case snd a of Some e \<Rightarrow> a | None \<Rightarrow> (fst a @ fst b, snd b))"

fun seq :: "trace list \<Rightarrow> trace" where
  "seq [] = ([], None)"
| "seq (a # as) = then_do a (seq as)"

text \<open>
  \<^verbatim>\<open>st.metric(label, value, delta)\<close>: Python evaluates the value, then the delta, and
  only then calls the widget.
\<close>

definition st_metric ::
  "string \<Rightarrow> py_exception + pytext \<Rightarrow> py_exception + pytext option \<Rightarrow> trace" where
  "st_metric label v d =
     (case v of
        Inl e \<Rightarrow> raise e
      | Inr vt \<Rightarrow> (case d of Inl e \<Rightarrow> raise e | Inr dt \<Rightarrow> emit [StMetric label vt dt]))"

definition lit :: "py_exception + string \<Rightarrow> py_exception + pytext" where
  "lit r = map_sum id (\<lambda>s. [Lit s]) r"

definition dollar :: "py_exception + string \<Rightarrow> py_exception + string" where
  "dollar r = map_sum id (\<lambda>s. ''$'' @ s) r"

text \<open>
  The widgets return their current value: the text box what was typed (initially the
  default), the select box one of its options (initially the one at \<open>index\<close>).
\<close>

definition st_text_input :: "string \<Rightarrow> string option \<Rightarrow> string" where
  "st_text_input initial typed = (case typed of None \<Rightarrow> initial | Some s \<Rightarrow> s)"

definition st_selectbox :: "string list \<Rightarrow> nat \<Rightarrow> nat option \<Rightarrow> string" where
  "st_selectbox options index chosen =
     (case chosen of
        None \<Rightarrow> options ! index
      | Some i \<Rightarrow> if i < length options then options ! i else options ! index)"

record ui =
  text_box :: "string option"
  button_clicked :: bool
  period_chosen :: "nat option"

text \<open>
  \<^verbatim>\<open>str.upper()\<close> on ASCII text: the letters a to z are mapped to A to Z and every
  other character, whitespace included, is kept. Ticker symbols are ASCII; the case
  mapping of characters beyond ASCII is outside this model.
\<close>

definition upper_char :: "char \<Rightarrow> char" where
  "upper_char c =
     (let n = of_char c :: int in if 97 \<le> n \<and> n \<le> 122 then char_of (n - 32) else c)"

definition py_upper :: "string \<Rightarrow> string" where
  "py_upper s = map upper_char s"

section \<open>The helper functions of the script\<close>

text \<open>
  \<^verbatim>\<open>get_stock_data\<close> (lines 15 to 23): the ticker handle is the symbol itself; on
  an exception the error is shown and \<^verbatim>\<open>(None, None)\<close> returned.
\<close>

definition get_stock_data ::
  "provider \<Rightarrow> string \<Rightarrow> event list \<times> string option \<times> info option" where
  "get_stock_data p ticker_symbol =
     (case ticker_info p ticker_symbol of
        Inl e \<Rightarrow>
          ([CallInfo ticker_symbol,
            StError (''Error fetching data for '' @ ticker_symbol @ '': '' @ e)],
           None, None)
      | Inr info \<Rightarrow> ([CallInfo ticker_symbol], Some ticker_symbol, info))"

text \<open>
  \<^verbatim>\<open>get_historical_data\<close> (lines 25 to 45). \<open>start_date_of\<close> is its chain of
  comparisons on the period; the clock reading \<^verbatim>\<open>datetime.now()\<close> is the parameter
  \<open>now\<close>.
\<close>

definition start_date_of :: "string \<Rightarrow> datetime \<Rightarrow> py_exception + datetime" where
  "start_date_of period end_date =
     (if period = ''1 Week'' then datetime_sub end_date (timedelta_days 7)
      else if period = ''1 Month'' then datetime_sub end_date (timedelta_days 30)
      else if period = ''6 Months'' then datetime_sub end_date (timedelta_days 180)
      else if period = ''1 Year'' then datetime_sub end_date (timedelta_days 365)
      else datetime_sub end_date (timedelta_days 30))"

definition get_historical_data ::
  "provider \<Rightarrow> datetime \<Rightarrow> string \<Rightarrow> string \<Rightarrow> event list \<times> dataframe option" where
  "get_historical_data p now ticker period =
     (let end_date = now
      in case start_date_of period end_date of
           Inl e \<Rightarrow>
             ([StError (''Error fetching historical data: '' @ ''date value out of range'')],
              None)
         | Inr start_date \<Rightarrow>
             (case ticker_history p ticker start_date end_date of
                Inl e \<Rightarrow>
                  ([CallHistory ticker start_date end_date,
                    StError (''Error fetching historical data: '' @ e)],
                   None)
              | Inr hist_data \<Rightarrow> ([CallHistory ticker start_date end_date], Some hist_data)))"

text \<open>\<^verbatim>\<open>format_large_number\<close> (lines 47 to 61).\<close>

definition scaled :: "pyval \<Rightarrow> int \<Rightarrow> string \<Rightarrow> py_exception + string" where
  "scaled num k suffix =
     map_sum id (\<lambda>x. ''$'' @ float_format_2f x @ suffix) (py_truediv num (PInt k))"

definition format_large_number :: "pyval \<Rightarrow> py_exception + string" where
  "format_large_number num =
     (if num = PNone then Inr ''N/A''
      else case py_ge num 1000000000000 of
        Inl e \<Rightarrow> Inl e
      | Inr True \<Rightarrow> scaled num 1000000000000 ''T''
      | Inr False \<Rightarrow>
     (case py_ge num 1000000000 of
        Inl e \<Rightarrow> Inl e
      | Inr True \<Rightarrow> scaled num 1000000000 ''B''
      | Inr False \<Rightarrow>
     (case py_ge num 1000000 of
        Inl e \<Rightarrow> Inl e
      | Inr True \<Rightarrow> scaled num 1000000 ''M''
      | Inr False \<Rightarrow>
     (case py_ge num 1000 of
        Inl e \<Rightarrow> Inl e
      | Inr True \<Rightarrow> scaled num 1000 ''K''
      | Inr False \<Rightarrow> dollar (format_2f num)))))"

section \<open>The script\<close>

subsection \<open>Company information (lines 102 to 122)\<close>

definition info_truthy :: "info \<Rightarrow> string \<Rightarrow> bool" where
  "info_truthy info k = (info_has info k \<and> py_truthy (info_get info k PNone))"

definition company_name_of :: "info \<Rightarrow> string \<Rightarrow> pyval" where
  "company_name_of info ticker_input = info_get info ''longName'' (PStr ticker_input)"

definition company_information :: "info \<Rightarrow> string \<Rightarrow> event list" where
  "company_information info ticker_input =
     [StSubheader ''Company Information'',
      StMarkdown ([Lit ''### ''] @ py_str (company_name_of info ticker_input))]
     @ (if info_truthy info ''sector''
        then [StMarkdown ([Lit ''**Sector:** ''] @ py_str (info_get info ''sector'' (PStr ''N/A'')))]
        else [])
     @ (if info_truthy info ''industry''
        then [StMarkdown ([Lit ''**Industry:** ''] @ py_str (info_get info ''industry'' (PStr ''N/A'')))]
        else [])
     @ (if info_truthy info ''website''
        then [StMarkdown ([Lit ''**Website:** [''] @ py_str (info_get info ''website'' (PStr ''N/A''))
                          @ [Lit ''](''] @ py_str (info_get info ''website'' (PStr ''#''))
                          @ [Lit '')''])]
        else [])
     @ (if info_truthy info ''longBusinessSummary''
        then [StMarkdown [Lit ''**Business Summary:**''],
              StMarkdown ([Lit ''<div style='height: 100px; overflow-y: auto;'>'']
                          @ py_str (info_get info ''longBusinessSummary'' (PStr ''N/A''))
                          @ [Lit ''</div>''])]
        else [])
     @ [StMarkdown [Lit ''---'']]"

subsection \<open>Key metrics (lines 125 to 152)\<close>

text \<open>
  The delta of the current-price metric (line 136): the conditional expression tests
  \<^verbatim>\<open>'previousClose' in info\<close> first and only then divides; the result of the
  division is a float, from which the integers 1 and 100 are subtracted and multiplied
  as floats, and the format \<^verbatim>\<open>.2f\<close> is followed by a percent sign.
\<close>

definition percent_change :: "pyval \<Rightarrow> pyval \<Rightarrow> py_exception + pyfloat" where
  "percent_change current previous =
     map_sum id (\<lambda>r. float_mul (float_sub r (Finite 1)) (Finite 100))
       (py_truediv current previous)"

definition price_delta :: "info \<Rightarrow> pyval \<Rightarrow> py_exception + pytext option" where
  "price_delta info current_price =
     (if info_has info ''previousClose''
      then map_sum id (\<lambda>x. Some [Lit (float_format_2f x @ ''%'')])
             (percent_change current_price (info_get info ''previousClose'' current_price))
      else Inr None)"

definition current_price_metric :: "info \<Rightarrow> trace" where
  "current_price_metric info =
     (let current_price = info_get info ''currentPrice'' (PStr ''N/A'')
      in if current_price \<noteq> PStr ''N/A''
         then st_metric ''Current Price'' (lit (dollar (format_2f current_price)))
                (price_delta info current_price)
         else st_metric ''Current Price'' (Inr [Lit ''N/A'']) (Inr None))"

definition previous_close_metric :: "info \<Rightarrow> trace" where
  "previous_close_metric info =
     st_metric ''Previous Close''
       (if info_has info ''previousClose''
        then lit (dollar (format_2f (info_get info ''previousClose'' (PInt 0))))
        else Inr [Lit ''N/A''])
       (Inr None)"

definition market_cap_metric :: "info \<Rightarrow> trace" where
  "market_cap_metric info =
     st_metric ''Market Cap'' (lit (format_large_number (info_get info ''marketCap'' PNone)))
       (Inr None)"

definition volume_metric :: "info \<Rightarrow> trace" where
  "volume_metric info =
     st_metric ''Volume''
       (if info_has info ''volume'' then format_grouped (info_get info ''volume'' (PInt 0))
        else Inr [Lit ''N/A''])
       (Inr None)"

definition pe_ratio_metric :: "info \<Rightarrow> trace" where
  "pe_ratio_metric info =
     st_metric ''P/E Ratio''
       (if info_truthy info ''trailingPE''
        then lit (format_2f (info_get info ''trailingPE'' (PInt 0)))
        else Inr [Lit ''N/A''])
       (Inr None)"

definition week_range_metric :: "info \<Rightarrow> trace" where
  "week_range_metric info =
     st_metric ''52 Week Range''
       (if info_has info ''fiftyTwoWeekLow'' \<and> info_has info ''fiftyTwoWeekHigh''
        then (case format_2f (info_get info ''fiftyTwoWeekLow'' (PInt 0)) of
                Inl e \<Rightarrow> Inl e
              | Inr lo \<Rightarrow>
                 (case format_2f (info_get info ''fiftyTwoWeekHigh'' (PInt 0)) of
                    Inl e \<Rightarrow> Inl e
                  | Inr hi \<Rightarrow> Inr [Lit (''$'' @ lo @ '' - $'' @ hi)]))
        else Inr [Lit ''N/A''])
       (Inr None)"

definition key_metrics :: "info \<Rightarrow> trace" where
  "key_metrics info =
     seq [emit [StSubheader ''Key Stock Metrics''],
          current_price_metric info,
          previous_close_metric info,
          market_cap_metric info,
          volume_metric info,
          pe_ratio_metric info,
          week_range_metric info,
          emit [StMarkdown [Lit ''---'']]]"

subsection \<open>Historical price chart (lines 155 to 231)\<close>

definition time_periods :: "string list" where
  "time_periods = [''1 Week'', ''1 Month'', ''6 Months'', ''1 Year'']"

definition no_data_message :: "string \<Rightarrow> string" where
  "no_data_message ticker_input =
     ''No historical data available for '' @ ticker_input @ '' over the selected time period.''"

definition price_chart :: "pyval \<Rightarrow> string \<Rightarrow> dataframe \<Rightarrow> event list" where
  "price_chart company_name selected_period hist_data =
     [StPlotlyChart
        (py_str company_name @ [Lit ('' Stock Price ('' @ selected_period @ '')'')])
        (map (\<lambda>r. (row_date r, row_close r)) hist_data),
      StSubheader ''Price Statistics'',
      StMetric ''Open'' [Lit (''$'' @ float_format_2f (row_open (last hist_data)))] None,
      StMetric ''High'' [Lit (''$'' @ float_format_2f (row_high (last hist_data)))] None,
      StMetric ''Low'' [Lit (''$'' @ float_format_2f (row_low (last hist_data)))] None,
      StMetric ''Close'' [Lit (''$'' @ float_format_2f (row_close (last hist_data)))] None,
      StDataframe hist_data]"

definition historical_chart ::
  "provider \<Rightarrow> datetime \<Rightarrow> ui \<Rightarrow> string \<Rightarrow> string \<Rightarrow> info \<Rightarrow> event list" where
  "historical_chart p now u ticker_input ticker info =
     (let selected_period = st_selectbox time_periods 1 (period_chosen u);
          (evs, hist_data) = get_historical_data p now ticker selected_period
      in [StSubheader ''Historical Price Chart''] @ evs
         @ (case hist_data of
              Some rows \<Rightarrow>
                if rows \<noteq> []
                then price_chart (company_name_of info ticker_input) selected_period rows
                else [StError (no_data_message ticker_input)]
            | None \<Rightarrow> [StError (no_data_message ticker_input)]))"

subsection \<open>The main page (lines 87 to 233)\<close>

definition could_not_find_message :: "string \<Rightarrow> string" where
  "could_not_find_message ticker_input =
     ''Could not find stock data for ticker '' @ [CHR 0x27] @ ticker_input @ [CHR 0x27]
     @ ''. Please check the symbol and try again.''"

definition display :: "provider \<Rightarrow> datetime \<Rightarrow> ui \<Rightarrow> string \<Rightarrow> string \<Rightarrow> info \<Rightarrow> trace" where
  "display p now u ticker_input ticker info =
     seq [emit (company_information info ticker_input),
          key_metrics info,
          emit (historical_chart p now u ticker_input ticker info)]"

text \<open>Line 87: the text of the input box, upper-cased.\<close>

definition ticker_input_of :: "ui \<Rightarrow> string" where
  "ticker_input_of u = py_upper (st_text_input ''AAPL'' (text_box u))"

definition dashboard :: "provider \<Rightarrow> datetime \<Rightarrow> ui \<Rightarrow> trace" where
  "dashboard p now u =
     (let ticker_input = ticker_input_of u;
          submit_button = button_clicked u
      in if submit_button \<or> ticker_input \<noteq> []
         then if ticker_input = []
              then emit [StWarning ''Please enter a stock ticker symbol.'']
              else (case get_stock_data p ticker_input of
                      (evs, ticker, info) \<Rightarrow>
                        then_do (emit evs)
                          (case (ticker, info) of
                             (Some t, Some i) \<Rightarrow>
                               if i \<noteq> [] then display p now u ticker_input t i
                               else emit [StError (could_not_find_message ticker_input)]
                           | _ \<Rightarrow> emit [StError (could_not_find_message ticker_input)]))
         else emit [])"

section \<open>Sample inputs\<close>

text \<open>Concrete providers, profiles and widget states on which the properties are run.\<close>

definition sample_info :: info where
  "sample_info =
     [(''longName'', PStr ''Apple Inc.''), (''currentPrice'', PFloat (Finite 101)),
      (''previousClose'', PFloat (Finite 100)), (''marketCap'', PInt 2500000000),
      (''volume'', PInt 1234567)]"

definition sample_provider :: provider where
  "sample_provider =
     \<lparr>ticker_info = (\<lambda>sym. if sym = ''AAPL'' then Inr (Some sample_info)
                            else if sym = ''DOWN'' then Inl ''connection refused''
                            else Inr (Some [])),
      ticker_history = (\<lambda>sym start_date end_date. Inr [])\<rparr>"

definition sample_now :: datetime where
  "sample_now = timedelta_days 739000"

section \<open>Reading a run\<close>

text \<open>
  The script keeps no state variable; the states that its specification names are read
  off the events of a run. A run is \<^emph>\<open>displaying\<close> when it entered the branch that renders
  the company information, and it \<^emph>\<open>failed\<close> for a symbol when it ended normally
  without displaying and its last error banner is the could-not-find message for that
  symbol. \<open>plain\<close> events are neither provider calls, error banners, charts nor the
  header of the company information.
\<close>

fun is_call :: "event \<Rightarrow> bool" where
  "is_call (CallInfo _) = True"
| "is_call (CallHistory _ _ _) = True"
| "is_call _ = False"

fun is_error :: "event \<Rightarrow> bool" where
  "is_error (StError _) = True"
| "is_error _ = False"

fun is_chart :: "event \<Rightarrow> bool" where
  "is_chart (StPlotlyChart _ _) = True"
| "is_chart (StDataframe _) = True"
| "is_chart _ = False"

definition displaying :: "trace \<Rightarrow> bool" where
  "displaying tr = (StSubheader ''Company Information'' \<in> set (fst tr))"

definition failed :: "string \<Rightarrow> trace \<Rightarrow> bool" where
  "failed tkr tr =
     (snd tr = None \<and> \<not> displaying tr
      \<and> filter is_error (fst tr) \<noteq> []
      \<and> last (filter is_error (fst tr)) = StError (could_not_find_message tkr))"

text \<open>Further sample inputs: widget states and a provider whose history call raises.\<close>

definition ui_aapl :: ui where
  "ui_aapl = \<lparr>text_box = Some ''AAPL'', button_clicked = False, period_chosen = None\<rparr>"

definition plain :: "event \<Rightarrow> bool" where
  "plain ev = (\<not> is_call ev \<and> \<not> is_error ev \<and> \<not> is_chart ev \<and> ev \<noteq> StSubheader ''Company Information'')"

definition failing_history_provider :: provider where
  "failing_history_provider =
     \<lparr>ticker_info = (\<lambda>s. Inr (Some sample_info)),
      ticker_history = (\<lambda>s start_date end_date. Inl ''timeout'')\<rparr>"

text \<open>Two providers that fail for every symbol: one raises, one returns an empty profile.\<close>

definition raising_provider :: provider where
  "raising_provider =
     \<lparr>ticker_info = (\<lambda>s. Inl ''connection refused''),
      ticker_history = (\<lambda>s start_date end_date. Inr [])\<rparr>"

definition empty_profile_provider :: provider where
  "empty_profile_provider =
     \<lparr>ticker_info = (\<lambda>s. Inr (Some [])),
      ticker_history = (\<lambda>s start_date end_date. Inr [])\<rparr>"

definition ui_typed :: "string \<Rightarrow> bool \<Rightarrow> nat option \<Rightarrow> ui" where
  "ui_typed raw pressed chosen =
     \<lparr>text_box = Some raw, button_clicked = pressed, period_chosen = chosen\<rparr>"


section \<open>Reading formatted numbers\<close>

text \<open>
  Predicates and readers for the strings that the formatters print: a string has
  \<open>two_decimals\<close> when it is one or more digits, a point and exactly two digits;
  \<open>read_2f\<close> is the number such a string denotes, with its sign.
\<close>

definition is_digit :: "char \<Rightarrow> bool" where
  "is_digit c = (c \<in> set ''0123456789'')"

definition digit_value :: "char \<Rightarrow> int" where
  "digit_value c = of_char c - 48"

definition digits_value :: "string \<Rightarrow> int" where
  "digits_value s = foldl (\<lambda>n c. 10 * n + digit_value c) 0 s"

definition two_decimals :: "string \<Rightarrow> bool" where
  "two_decimals s =
     (case rev s of
        b # a # p # ds \<Rightarrow>
          is_digit b \<and> is_digit a \<and> p = CHR ''.'' \<and> ds \<noteq> [] \<and> list_all is_digit ds
      | _ \<Rightarrow> False)"

definition minus_sign :: "string \<Rightarrow> bool" where
  "minus_sign s = (take 1 s = ''-'')"

definition unsigned :: "string \<Rightarrow> string" where
  "unsigned s = (if minus_sign s then drop 1 s else s)"

definition read_2f :: "string \<Rightarrow> rat" where
  "read_2f s =
     (if minus_sign s then - 1 else 1) * of_int (digits_value (filter is_digit s)) / 100"

text \<open>
  The finite numbers among the Python values, with their exact value, the negative
  numbers, and the finite floats.
\<close>

fun number_value :: "pyval \<Rightarrow> rat option" where
  "number_value (PInt n) = Some (of_int n)"
| "number_value (PFloat (Finite q)) = Some q"
| "number_value _ = None"

fun is_negative :: "pyval \<Rightarrow> bool" where
  "is_negative (PInt n) = (n < 0)"
| "is_negative (PFloat (Finite q)) = (q < 0)"
| "is_negative (PFloat NInf) = True"
| "is_negative _ = False"

fun is_finite :: "pyfloat \<Rightarrow> bool" where
  "is_finite (Finite q) = True"
| "is_finite NegZero = True"
| "is_finite _ = False"

text \<open>
  The table of the specification (section 4.3): the largest applicable suffix among
  T, B, M and K and its scale, none below 1000.
\<close>

definition largest_suffix :: "rat \<Rightarrow> string" where
  "largest_suffix v =
     (if 1000000000000 \<le> v then ''T'' else if 1000000000 \<le> v then ''B''
      else if 1000000 \<le> v then ''M'' else if 1000 \<le> v then ''K'' else '''')"

definition largest_scale :: "rat \<Rightarrow> int" where
  "largest_scale v =
     (if 1000000000000 \<le> v then 1000000000000 else if 1000000000 \<le> v then 1000000000
      else if 1000000 \<le> v then 1000000 else if 1000 \<le> v then 1000 else 1)"

text \<open>A profile with the two prices only, and one whose previous close is zero.\<close>

definition price_info :: "pyval \<Rightarrow> pyval \<Rightarrow> info" where
  "price_info current previous = [(''currentPrice'', current), (''previousClose'', previous)]"

definition zero_close_info :: info where
  "zero_close_info = [(''longName'', PStr ''Halted Corp''), (''currentPrice'', PInt 100),
                      (''previousClose'', PInt 0)]"

definition zero_close_provider :: provider where
  "zero_close_provider =
     \<lparr>ticker_info = (\<lambda>s. Inr (Some zero_close_info)),
      ticker_history = (\<lambda>s start_date end_date. Inr [])\<rparr>"

section \<open>The time window of the historical lookup\<close>

lemma datetime_sub_ok:
  "0 \<le> d \<Longrightarrow> d \<le> t \<Longrightarrow> t \<le> datetime_max \<Longrightarrow> datetime_sub t d = Inr (t - d)"
  by (simp add: datetime_sub_def)

lemma get_historical_data_call:
  assumes "start_date_of period now = Inr s"
  shows "hd (fst (get_historical_data p now t period)) = CallHistory t s now"
  using assms by (simp add: get_historical_data_def split: sum.splits)

text \<open>
  Claim C2. For each of the four period selectors the historical lookup is issued
  with \<open>end = now\<close> and \<open>start = now\<close> minus 7, 30, 180 and 365 days respectively, and
  for every other selector value with \<open>start = now\<close> minus 30 days. The clock reading
  \<open>now\<close> is a \<^verbatim>\<open>datetime\<close> from which a year can be subtracted, as every reading of
  \<^verbatim>\<open>datetime.now()\<close> is.
\<close>

theorem period_window:
  assumes "timedelta_days 365 \<le> now" and "now \<le> datetime_max"
  shows "hd (fst (get_historical_data p now t ''1 Week''))
           = CallHistory t (now - timedelta_days 7) now
       \<and> hd (fst (get_historical_data p now t ''1 Month''))
           = CallHistory t (now - timedelta_days 30) now
       \<and> hd (fst (get_historical_data p now t ''6 Months''))
           = CallHistory t (now - timedelta_days 180) now
       \<and> hd (fst (get_historical_data p now t ''1 Year''))
           = CallHistory t (now - timedelta_days 365) now
       \<and> (period \<notin> set time_periods \<longrightarrow>
            hd (fst (get_historical_data p now t period))
              = CallHistory t (now - timedelta_days 30) now)"
proof -
  have sub: "datetime_sub now (timedelta_days d) = Inr (now - timedelta_days d)"
    if "0 \<le> d" "d \<le> 365" for d
  proof (rule datetime_sub_ok)
    show "0 \<le> timedelta_days d" using that by (simp add: timedelta_days_def)
    have "timedelta_days d \<le> timedelta_days 365" using that by (simp add: timedelta_days_def)
    then show "timedelta_days d \<le> now" using assms(1) by linarith
    show "now \<le> datetime_max" by (rule assms(2))
  qed
  have w: "start_date_of ''1 Week'' now = Inr (now - timedelta_days 7)"
    by (simp add: start_date_of_def sub)
  have m: "start_date_of ''1 Month'' now = Inr (now - timedelta_days 30)"
    by (simp add: start_date_of_def sub)
  have h: "start_date_of ''6 Months'' now = Inr (now - timedelta_days 180)"
    by (simp add: start_date_of_def sub)
  have y: "start_date_of ''1 Year'' now = Inr (now - timedelta_days 365)"
    by (simp add: start_date_of_def sub)
  have other: "start_date_of period now = Inr (now - timedelta_days 30)"
    if "period \<notin> set time_periods"
    using that by (simp add: start_date_of_def time_periods_def sub)
  show ?thesis
    using w m h y other by (simp add: get_historical_data_call)
qed

theorem period_window_witness:
  "timedelta_days 365 \<le> sample_now \<and> sample_now \<le> datetime_max
   \<and> hd (fst (get_historical_data sample_provider sample_now ''AAPL'' ''1 Week''))
       = CallHistory ''AAPL'' (sample_now - timedelta_days 7) sample_now
   \<and> ''5 Years'' \<notin> set time_periods
   \<and> hd (fst (get_historical_data sample_provider sample_now ''AAPL'' ''5 Years''))
       = CallHistory ''AAPL'' (sample_now - timedelta_days 30) sample_now"
proof -
  have a: "timedelta_days 365 \<le> sample_now"
    by (simp add: sample_now_def timedelta_days_def)
  have b: "sample_now \<le> datetime_max"
    by (simp add: sample_now_def datetime_max_def timedelta_days_def)
  have c: "''5 Years'' \<notin> set time_periods"
    by (simp add: time_periods_def)
  show ?thesis
    using a b c period_window [OF a b, of sample_provider "''AAPL''" "''5 Years''"] by simp
qed

section \<open>Facts about a run of the script\<close>

lemma py_upper_Nil [simp]: "py_upper s = [] \<longleftrightarrow> s = []"
  by (simp add: py_upper_def)

lemma ticker_input_typed: "text_box u = Some raw \<Longrightarrow> ticker_input_of u = py_upper raw"
  by (simp add: ticker_input_of_def st_text_input_def)

lemma then_do_emit [simp]: "then_do (emit evs) b = (evs @ fst b, snd b)"
  by (simp add: then_do_def emit_def)

lemma then_do_ok: "snd a = None \<Longrightarrow> then_do a b = (fst a @ fst b, snd b)"
  by (simp add: then_do_def)

lemma then_do_set: "set (fst (then_do a b)) \<subseteq> set (fst a) \<union> set (fst b)"
  by (auto simp: then_do_def split: option.splits)

lemma dashboard_lookup:
  assumes "ticker_input_of u \<noteq> []"
  shows "dashboard p now u =
     (let tkr = ticker_input_of u in
      case ticker_info p tkr of
        Inl e \<Rightarrow> ([CallInfo tkr, StError (''Error fetching data for '' @ tkr @ '': '' @ e),
                   StError (could_not_find_message tkr)], None)
      | Inr None \<Rightarrow> ([CallInfo tkr, StError (could_not_find_message tkr)], None)
      | Inr (Some i) \<Rightarrow>
          if i \<noteq> [] then (CallInfo tkr # fst (display p now u tkr tkr i), snd (display p now u tkr tkr i))
          else ([CallInfo tkr, StError (could_not_find_message tkr)], None))"
  using assms
  by (simp add: dashboard_def get_stock_data_def Let_def emit_def then_do_def
      split: sum.splits option.splits)

lemma dashboard_empty:
  assumes "ticker_input_of u = []"
  shows "dashboard p now u =
           ((if button_clicked u then [StWarning ''Please enter a stock ticker symbol.''] else []), None)"
  using assms by (simp add: dashboard_def Let_def emit_def)

lemma dashboard_first_call:
  assumes "ticker_input_of u \<noteq> []"
  shows "hd (fst (dashboard p now u)) = CallInfo (ticker_input_of u)"
  using assms
  by (simp add: dashboard_lookup Let_def split: sum.splits option.splits)

lemma st_metric_events:
  "ev \<in> set (fst (st_metric l v d)) \<Longrightarrow> \<exists>a b. ev = StMetric l a b"
  by (auto simp: st_metric_def emit_def raise_def split: sum.splits)

lemma st_metric_plain: "\<forall>ev\<in>set (fst (st_metric l v d)). plain ev"
  by (auto dest!: st_metric_events simp: plain_def)

lemma seq_plain:
  "\<forall>a\<in>set as. \<forall>ev\<in>set (fst a). plain ev \<Longrightarrow> \<forall>ev\<in>set (fst (seq as)). plain ev"
proof (induction as)
  case Nil
  then show ?case by simp
next
  case (Cons a as)
  have "set (fst (seq (a # as))) \<subseteq> set (fst a) \<union> set (fst (seq as))"
    using then_do_set [of a "seq as"] by simp
  moreover have "\<forall>ev\<in>set (fst a). plain ev"
    using Cons.prems by simp
  moreover have "\<forall>ev\<in>set (fst (seq as)). plain ev"
    using Cons.IH Cons.prems by simp
  ultimately show ?case by blast
qed

lemma key_metrics_plain: "\<forall>ev\<in>set (fst (key_metrics i)). plain ev"
proof -
  have 1: "\<forall>ev\<in>set (fst (current_price_metric i)). plain ev"
    by (simp add: current_price_metric_def Let_def st_metric_plain)
  have 2: "\<forall>ev\<in>set (fst (previous_close_metric i)). plain ev"
    by (simp add: previous_close_metric_def st_metric_plain)
  have 3: "\<forall>ev\<in>set (fst (market_cap_metric i)). plain ev"
    by (simp add: market_cap_metric_def st_metric_plain)
  have 4: "\<forall>ev\<in>set (fst (volume_metric i)). plain ev"
    by (simp add: volume_metric_def st_metric_plain)
  have 5: "\<forall>ev\<in>set (fst (pe_ratio_metric i)). plain ev"
    by (simp add: pe_ratio_metric_def st_metric_plain)
  have 6: "\<forall>ev\<in>set (fst (week_range_metric i)). plain ev"
    by (simp add: week_range_metric_def st_metric_plain)
  have 0: "\<forall>ev\<in>set (fst (emit [StSubheader ''Key Stock Metrics''])). plain ev"
    by (simp add: emit_def plain_def)
  have 7: "\<forall>ev\<in>set (fst (emit [StMarkdown [Lit ''---'']])). plain ev"
    by (simp add: emit_def plain_def)
  show ?thesis
    unfolding key_metrics_def
    by (rule seq_plain) (simp add: 0 1 2 3 4 5 6 7)
qed

lemma company_information_filter:
  "filter is_call (company_information i s) = []"
  "filter is_error (company_information i s) = []"
  "filter is_chart (company_information i s) = []"
  "StSubheader ''Company Information'' \<in> set (company_information i s)"
  by (simp_all add: company_information_def)

lemma filter_plain:
  assumes "\<forall>ev\<in>set evs. plain ev"
  shows "filter is_call evs = []" "filter is_error evs = []" "filter is_chart evs = []"
  using assms by (auto simp: plain_def filter_empty_conv)

lemma display_ok:
  assumes "snd (key_metrics i) = None"
  shows "display p now u s t i =
           (company_information i s @ fst (key_metrics i) @ historical_chart p now u s t i, None)"
  using assms by (simp add: display_def then_do_def emit_def)

lemma display_raises:
  assumes "snd (key_metrics i) = Some e"
  shows "display p now u s t i = (company_information i s @ fst (key_metrics i), Some e)"
  using assms by (simp add: display_def then_do_def emit_def)

lemma historical_chart_empty:
  assumes "start_date_of (st_selectbox time_periods 1 (period_chosen u)) now = Inr start"
    and "ticker_history p t start now = Inr []"
  shows "historical_chart p now u s t i =
           [StSubheader ''Historical Price Chart'', CallHistory t start now,
            StError (no_data_message s)]"
  using assms by (simp add: historical_chart_def get_historical_data_def Let_def)

lemma historical_chart_error:
  assumes "start_date_of (st_selectbox time_periods 1 (period_chosen u)) now = Inr start"
    and "ticker_history p t start now = Inl e"
  shows "historical_chart p now u s t i =
           [StSubheader ''Historical Price Chart'', CallHistory t start now,
            StError (''Error fetching historical data: '' @ e),
            StError (no_data_message s)]"
  using assms by (simp add: historical_chart_def get_historical_data_def Let_def)

lemma historical_chart_calls:
  assumes "start_date_of (st_selectbox time_periods 1 (period_chosen u)) now = Inr start"
  shows "filter is_call (historical_chart p now u s t i) = [CallHistory t start now]"
  using assms
  by (simp add: historical_chart_def get_historical_data_def Let_def price_chart_def
      split: sum.splits)

lemma dashboard_displayed:
  assumes "ticker_input_of u = tkr" "tkr \<noteq> []"
    and "ticker_info p tkr = Inr (Some i)" "i \<noteq> []"
    and "snd (key_metrics i) = None"
  shows "dashboard p now u =
           (CallInfo tkr # company_information i tkr @ fst (key_metrics i)
              @ historical_chart p now u tkr tkr i, None)"
  using assms by (simp add: dashboard_lookup display_ok)

lemma sample_key_metrics: "snd (key_metrics sample_info) = None"
  by code_simp

lemma sample_start:
  "start_date_of (st_selectbox time_periods 1 None) sample_now = Inr (sample_now - timedelta_days 30)"
  by code_simp

lemma sample_start_week:
  "start_date_of (st_selectbox time_periods 1 (Some 0)) sample_now
     = Inr (sample_now - timedelta_days 7)"
  by code_simp

lemma upper_char_code:
  assumes "97 \<le> (of_char c :: int)" "(of_char c :: int) \<le> 122"
  shows "(of_char (upper_char c) :: int) = of_char c - 32"
proof -
  have "(of_char c - 32 :: int) mod 256 = of_char c - 32"
    using assms by simp
  then show ?thesis
    using assms by (simp add: upper_char_def Let_def of_char_of)
qed

lemma upper_char_other:
  "\<not> (97 \<le> (of_char c :: int) \<and> (of_char c :: int) \<le> 122) \<Longrightarrow> upper_char c = c"
  by (auto simp: upper_char_def Let_def)

section \<open>The input normalizer\<close>

text \<open>
  Claim C3, as amended. The script upper-cases the typed text and does not trim it:
  for every ASCII input the symbol has the length of the input, each letter a to z is
  replaced by its capital (its code minus 32) and every other character, surrounding
  whitespace included, is kept; for a non-empty input this symbol is what the first
  provider call receives.
\<close>

theorem ticker_input_uppercased:
  assumes "text_box u = Some raw" and "\<forall>c\<in>set raw. (of_char c :: int) < 128"
  shows "length (ticker_input_of u) = length raw
       \<and> (\<forall>i<length raw.
            if 97 \<le> (of_char (raw ! i) :: int) \<and> (of_char (raw ! i) :: int) \<le> 122
            then (of_char (ticker_input_of u ! i) :: int) = of_char (raw ! i) - 32
            else ticker_input_of u ! i = raw ! i)
       \<and> (raw \<noteq> [] \<longrightarrow> hd (fst (dashboard p now u)) = CallInfo (ticker_input_of u))"
proof (intro conjI allI impI)
  note t = ticker_input_typed [OF assms(1)]
  show "length (ticker_input_of u) = length raw"
    by (simp add: t py_upper_def)
  show "if 97 \<le> (of_char (raw ! i) :: int) \<and> (of_char (raw ! i) :: int) \<le> 122
        then (of_char (ticker_input_of u ! i) :: int) = of_char (raw ! i) - 32
        else ticker_input_of u ! i = raw ! i" if "i < length raw" for i
    using that by (auto simp: t py_upper_def upper_char_code upper_char_other)
  show "hd (fst (dashboard p now u)) = CallInfo (ticker_input_of u)" if "raw \<noteq> []"
    using that by (intro dashboard_first_call) (simp add: t)
qed

theorem ticker_input_uppercased_witness:
  "text_box (ui_typed ''  aapl '' False None) = Some ''  aapl ''
   \<and> list_all (\<lambda>c. (of_char c :: int) < 128) ''  aapl ''
   \<and> length (ticker_input_of (ui_typed ''  aapl '' False None)) = length ''  aapl ''
   \<and> ''  aapl '' \<noteq> []
   \<and> hd (fst (dashboard sample_provider sample_now (ui_typed ''  aapl '' False None)))
       = CallInfo (ticker_input_of (ui_typed ''  aapl '' False None))"
proof -
  have 1: "text_box (ui_typed ''  aapl '' False None) = Some ''  aapl ''"
    by (simp add: ui_typed_def)
  have 2: "\<forall>c\<in>set ''  aapl ''. (of_char c :: int) < 128"
    by simp
  show ?thesis
    using ticker_input_uppercased [OF 1 2, of sample_provider sample_now] 1 2
    by (simp add: list_all_iff)
qed

text \<open>
  The claim as stated fails: the input \<^verbatim>\<open>"  aapl "\<close> becomes \<^verbatim>\<open>"  AAPL "\<close>, not
  \<^verbatim>\<open>"AAPL"\<close>, and the provider is asked for \<^verbatim>\<open>"  AAPL "\<close>.
\<close>

theorem ticker_input_not_trimmed:
  "ticker_input_of (ui_typed ''  aapl '' False None) = ''  AAPL ''
   \<and> ticker_input_of (ui_typed ''  aapl '' False None) \<noteq> ''AAPL''
   \<and> hd (fst (dashboard sample_provider sample_now (ui_typed ''  aapl '' False None)))
       = CallInfo ''  AAPL ''"
  by code_simp

section \<open>Empty input\<close>

text \<open>
  Claim C7, as amended. For the empty input the run makes no provider call; it
  consists of the warning alone when the button was pressed and of nothing otherwise.
  Every non-empty input, whitespace-only ones included, is looked up: the first event
  of its run is the profile lookup for the upper-cased text.
\<close>

theorem empty_input_no_lookup:
  "(text_box u = Some [] \<longrightarrow>
      dashboard p now u
        = ((if button_clicked u then [StWarning ''Please enter a stock ticker symbol.''] else []),
           None))
   \<and> (text_box u = Some raw \<and> raw \<noteq> [] \<longrightarrow>
        hd (fst (dashboard p now u)) = CallInfo (py_upper raw))"
proof (intro conjI impI)
  assume "text_box u = Some []"
  then have "ticker_input_of u = []"
    by (simp add: ticker_input_typed)
  then show "dashboard p now u
        = ((if button_clicked u then [StWarning ''Please enter a stock ticker symbol.''] else []),
           None)"
    by (rule dashboard_empty)
next
  assume a: "text_box u = Some raw \<and> raw \<noteq> []"
  then have t: "ticker_input_of u = py_upper raw"
    by (simp add: ticker_input_typed)
  then have "ticker_input_of u \<noteq> []" using a by simp
  then show "hd (fst (dashboard p now u)) = CallInfo (py_upper raw)"
    using dashboard_first_call t by metis
qed

theorem empty_input_no_lookup_witness:
  "text_box (ui_typed [] True None) = Some []
   \<and> dashboard sample_provider sample_now (ui_typed [] True None)
       = ([StWarning ''Please enter a stock ticker symbol.''], None)
   \<and> text_box (ui_typed ''   '' True None) = Some ''   '' \<and> ''   '' \<noteq> []
   \<and> hd (fst (dashboard sample_provider sample_now (ui_typed ''   '' True None)))
       = CallInfo ''   ''"
proof -
  have 1: "text_box (ui_typed [] True None) = Some []" by (simp add: ui_typed_def)
  have 2: "text_box (ui_typed ''   '' True None) = Some ''   '' \<and> ''   '' \<noteq> []"
    by (simp add: ui_typed_def)
  have 3: "button_clicked (ui_typed [] True None)" by (simp add: ui_typed_def)
  have 4: "py_upper ''   '' = ''   ''" by code_simp
  show ?thesis
    using empty_input_no_lookup [of "ui_typed [] True None" sample_provider sample_now "[]"]
      empty_input_no_lookup [of "ui_typed ''   '' True None" sample_provider sample_now "''   ''"]
      1 2 3 4
    by simp
qed

text \<open>
  The claim as stated fails on a whitespace-only input, for which the provider is
  called, and on the empty input without a button press, for which no message is
  shown.
\<close>

theorem whitespace_input_is_looked_up:
  "dashboard sample_provider sample_now (ui_typed ''   '' True None)
     = ([CallInfo ''   '', StError (could_not_find_message ''   '')], None)
   \<and> dashboard sample_provider sample_now (ui_typed [] False None) = ([], None)"
  by code_simp

section \<open>A failed profile lookup\<close>

text \<open>
  Claim C6, as amended. For every non-empty symbol: when the profile lookup raises, the
  run consists of the lookup, the banner \<^verbatim>\<open>Error fetching data for\<close> with the symbol and
  the error, and the could-not-find banner; when the lookup returns \<^verbatim>\<open>None\<close> or an empty
  dictionary, it consists of the lookup and the could-not-find banner only. In all three
  cases the run ends normally without displaying a profile, the profile lookup is the
  only provider call, the could-not-find banner is the last event of the run (the state
  \<open>failed\<close>), and that message contains the symbol.
\<close>

theorem lookup_failure_outcomes:
  assumes "ticker_input_of u = tkr" and "tkr \<noteq> []"
  shows "(ticker_info p tkr = Inl e \<longrightarrow>
            dashboard p now u =
              ([CallInfo tkr, StError (''Error fetching data for '' @ tkr @ '': '' @ e),
                StError (could_not_find_message tkr)], None))
       \<and> (ticker_info p tkr = Inr None \<or> ticker_info p tkr = Inr (Some []) \<longrightarrow>
            dashboard p now u = ([CallInfo tkr, StError (could_not_find_message tkr)], None))
       \<and> (ticker_info p tkr = Inl e \<or> ticker_info p tkr = Inr None
            \<or> ticker_info p tkr = Inr (Some []) \<longrightarrow>
            failed tkr (dashboard p now u)
            \<and> filter is_call (fst (dashboard p now u)) = [CallInfo tkr]
            \<and> last (fst (dashboard p now u)) = StError (could_not_find_message tkr))
       \<and> (\<exists>a b. could_not_find_message tkr = a @ tkr @ b)"
proof -
  have n: "ticker_input_of u \<noteq> []" using assms by simp
  note d = dashboard_lookup [OF n, of p now, unfolded assms(1) Let_def]
  have 1: "ticker_info p tkr = Inl e \<longrightarrow>
            dashboard p now u =
              ([CallInfo tkr, StError (''Error fetching data for '' @ tkr @ '': '' @ e),
                StError (could_not_find_message tkr)], None)"
    by (simp add: d)
  have 2: "ticker_info p tkr = Inr None \<or> ticker_info p tkr = Inr (Some []) \<longrightarrow>
            dashboard p now u = ([CallInfo tkr, StError (could_not_find_message tkr)], None)"
    by (auto simp: d)
  have 3: "ticker_info p tkr = Inl e \<or> ticker_info p tkr = Inr None
            \<or> ticker_info p tkr = Inr (Some []) \<longrightarrow>
            failed tkr (dashboard p now u)
            \<and> filter is_call (fst (dashboard p now u)) = [CallInfo tkr]
            \<and> last (fst (dashboard p now u)) = StError (could_not_find_message tkr)"
    by (auto simp: d failed_def displaying_def)
  have 4: "\<exists>a b. could_not_find_message tkr = a @ tkr @ b"
    unfolding could_not_find_message_def by (metis append.assoc)
  show ?thesis using 1 2 3 4 by blast
qed

theorem lookup_failure_outcomes_witness:
  "ticker_input_of (ui_typed ''zzzz'' True None) = ''ZZZZ'' \<and> ''ZZZZ'' \<noteq> []
   \<and> ticker_info raising_provider ''ZZZZ'' = Inl ''connection refused''
   \<and> dashboard raising_provider sample_now (ui_typed ''zzzz'' True None) =
       ([CallInfo ''ZZZZ'',
         StError (''Error fetching data for '' @ ''ZZZZ'' @ '': '' @ ''connection refused''),
         StError (could_not_find_message ''ZZZZ'')], None)
   \<and> failed ''ZZZZ'' (dashboard raising_provider sample_now (ui_typed ''zzzz'' True None))
   \<and> ticker_info empty_profile_provider ''ZZZZ'' = Inr (Some [])
   \<and> dashboard empty_profile_provider sample_now (ui_typed ''zzzz'' True None) =
       ([CallInfo ''ZZZZ'', StError (could_not_find_message ''ZZZZ'')], None)
   \<and> failed ''ZZZZ'' (dashboard empty_profile_provider sample_now (ui_typed ''zzzz'' True None))"
proof -
  have 1: "ticker_input_of (ui_typed ''zzzz'' True None) = ''ZZZZ''" by code_simp
  have n: "''ZZZZ'' \<noteq> []" by simp
  have 2: "ticker_info raising_provider ''ZZZZ'' = Inl ''connection refused''"
    by (simp add: raising_provider_def)
  have 3: "ticker_info empty_profile_provider ''ZZZZ'' = Inr (Some [])"
    by (simp add: empty_profile_provider_def)
  note a = lookup_failure_outcomes [OF 1 n, of raising_provider "''connection refused''" sample_now]
  note b = lookup_failure_outcomes [OF 1 n, of empty_profile_provider "''connection refused''" sample_now]
  have 4: "dashboard raising_provider sample_now (ui_typed ''zzzz'' True None) =
       ([CallInfo ''ZZZZ'',
         StError (''Error fetching data for '' @ ''ZZZZ'' @ '': '' @ ''connection refused''),
         StError (could_not_find_message ''ZZZZ'')], None)"
    using a 2 by blast
  have 5: "failed ''ZZZZ'' (dashboard raising_provider sample_now (ui_typed ''zzzz'' True None))"
    using a 2 by blast
  have 6: "dashboard empty_profile_provider sample_now (ui_typed ''zzzz'' True None) =
       ([CallInfo ''ZZZZ'', StError (could_not_find_message ''ZZZZ'')], None)"
    using b 3 by blast
  have 7: "failed ''ZZZZ'' (dashboard empty_profile_provider sample_now (ui_typed ''zzzz'' True None))"
    using b 3 by blast
  show ?thesis
    using 1 n 2 3 4 5 6 7 by blast
qed

text \<open>
  The claim as stated fails: the two causes are not shown alike. For the same symbol a
  raising lookup shows two error banners, an empty profile one.
\<close>

theorem lookup_error_shows_two_banners:
  "filter is_error (fst (dashboard raising_provider sample_now (ui_typed ''zzzz'' True None)))
     = [StError ''Error fetching data for ZZZZ: connection refused'',
        StError (could_not_find_message ''ZZZZ'')]
   \<and> filter is_error (fst (dashboard empty_profile_provider sample_now (ui_typed ''zzzz'' True None)))
     = [StError (could_not_find_message ''ZZZZ'')]
   \<and> fst (dashboard raising_provider sample_now (ui_typed ''zzzz'' True None))
     \<noteq> fst (dashboard empty_profile_provider sample_now (ui_typed ''zzzz'' True None))"
  by code_simp

section \<open>An empty historical series\<close>

text \<open>
  Claim C5, as amended. When the profile lookup succeeds, the metrics render and the
  historical lookup returns an empty series, the run ends normally in the displaying
  state, not the failed one, with no chart and no table; the no-data outcome is
  reported through \<^verbatim>\<open>st.error\<close>, as the run's only error banner. When the historical
  lookup raises instead, the same no-data banner follows the banner of that error.
\<close>

theorem empty_history_outcome:
  assumes "ticker_input_of u = tkr" and "tkr \<noteq> []"
    and "ticker_info p tkr = Inr (Some i)" and "i \<noteq> []"
    and "snd (key_metrics i) = None"
    and "start_date_of (st_selectbox time_periods 1 (period_chosen u)) now = Inr start"
  shows "(ticker_history p tkr start now = Inr [] \<longrightarrow>
            snd (dashboard p now u) = None
          \<and> displaying (dashboard p now u)
          \<and> \<not> failed tkr (dashboard p now u)
          \<and> filter is_chart (fst (dashboard p now u)) = []
          \<and> filter is_error (fst (dashboard p now u)) = [StError (no_data_message tkr)])
       \<and> (ticker_history p tkr start now = Inl e \<longrightarrow>
            filter is_error (fst (dashboard p now u))
              = [StError (''Error fetching historical data: '' @ e),
                 StError (no_data_message tkr)])"
proof -
  note d = dashboard_displayed [OF assms(1-5), of now]
  note km = filter_plain [OF key_metrics_plain, of i]
  have disp: "displaying (dashboard p now u)"
    by (simp add: d displaying_def company_information_filter)
  show ?thesis
  proof (intro conjI impI)
    assume h: "ticker_history p tkr start now = Inr []"
    note hc = historical_chart_empty [OF assms(6) h]
    show "snd (dashboard p now u) = None" by (simp add: d)
    show "displaying (dashboard p now u)" by (rule disp)
    show "\<not> failed tkr (dashboard p now u)" using disp by (simp add: failed_def)
    show "filter is_chart (fst (dashboard p now u)) = []"
      by (simp add: d hc km company_information_filter)
    show "filter is_error (fst (dashboard p now u)) = [StError (no_data_message tkr)]"
      by (simp add: d hc km company_information_filter)
  next
    assume h: "ticker_history p tkr start now = Inl e"
    note hc = historical_chart_error [OF assms(6) h]
    show "filter is_error (fst (dashboard p now u))
            = [StError (''Error fetching historical data: '' @ e), StError (no_data_message tkr)]"
      by (simp add: d hc km company_information_filter)
  qed
qed

theorem empty_history_outcome_witness:
  "ticker_input_of ui_aapl = ''AAPL'' \<and> ''AAPL'' \<noteq> []
   \<and> ticker_info sample_provider ''AAPL'' = Inr (Some sample_info) \<and> sample_info \<noteq> []
   \<and> snd (key_metrics sample_info) = None
   \<and> start_date_of (st_selectbox time_periods 1 (period_chosen ui_aapl)) sample_now
       = Inr (sample_now - timedelta_days 30)
   \<and> ticker_history sample_provider ''AAPL'' (sample_now - timedelta_days 30) sample_now = Inr []
   \<and> displaying (dashboard sample_provider sample_now ui_aapl)
   \<and> filter is_chart (fst (dashboard sample_provider sample_now ui_aapl)) = []
   \<and> filter is_error (fst (dashboard sample_provider sample_now ui_aapl))
       = [StError (no_data_message ''AAPL'')]"
proof -
  have 1: "ticker_input_of ui_aapl = ''AAPL''" by code_simp
  have 2: "''AAPL'' \<noteq> []" by simp
  have 3: "ticker_info sample_provider ''AAPL'' = Inr (Some sample_info)"
    by (simp add: sample_provider_def)
  have 4: "sample_info \<noteq> []" by (simp add: sample_info_def)
  have 6: "start_date_of (st_selectbox time_periods 1 (period_chosen ui_aapl)) sample_now
       = Inr (sample_now - timedelta_days 30)"
    using sample_start by (simp add: ui_aapl_def)
  have 7: "ticker_history sample_provider ''AAPL'' (sample_now - timedelta_days 30) sample_now = Inr []"
    by (simp add: sample_provider_def)
  show ?thesis
    using empty_history_outcome [OF 1 2 3 4 sample_key_metrics 6, of undefined] 1 2 3 4 sample_key_metrics 6 7
    by simp
qed

text \<open>
  The claim as stated fails: the no-data message is an error banner, and the very same
  banner is shown when the historical lookup raises.
\<close>

theorem no_data_is_error_banner:
  "StError (no_data_message ''AAPL'') \<in> set (fst (dashboard sample_provider sample_now ui_aapl))
   \<and> StError (no_data_message ''AAPL'')
       \<in> set (fst (dashboard failing_history_provider sample_now ui_aapl))"
  by code_simp

section \<open>Provider calls of a run\<close>

text \<open>
  Claim C9, as amended. The script is re-run as a whole on every interaction, so a run
  after a period change issues the profile lookup again: for every period selection,
  a run whose profile lookup succeeds and whose metrics render makes exactly two
  provider calls, the profile lookup and then the historical lookup for the window of
  the selected period.
\<close>

theorem every_run_fetches_profile:
  assumes "ticker_input_of u = tkr" and "tkr \<noteq> []"
    and "ticker_info p tkr = Inr (Some i)" and "i \<noteq> []"
    and "snd (key_metrics i) = None"
    and "start_date_of (st_selectbox time_periods 1 chosen) now = Inr start"
  shows "filter is_call (fst (dashboard p now (u\<lparr>period_chosen := chosen\<rparr>)))
           = [CallInfo tkr, CallHistory tkr start now]"
proof -
  let ?u = "u\<lparr>period_chosen := chosen\<rparr>"
  have t: "ticker_input_of ?u = tkr"
    using assms(1) by (simp add: ticker_input_of_def)
  have w: "start_date_of (st_selectbox time_periods 1 (period_chosen ?u)) now = Inr start"
    using assms(6) by simp
  show ?thesis
    by (simp add: dashboard_displayed [OF t assms(2-5)] company_information_filter
        filter_plain [OF key_metrics_plain] historical_chart_calls [OF w])
qed

theorem every_run_fetches_profile_witness:
  "ticker_input_of ui_aapl = ''AAPL'' \<and> ''AAPL'' \<noteq> []
   \<and> ticker_info sample_provider ''AAPL'' = Inr (Some sample_info) \<and> sample_info \<noteq> []
   \<and> snd (key_metrics sample_info) = None
   \<and> start_date_of (st_selectbox time_periods 1 (Some 0)) sample_now
       = Inr (sample_now - timedelta_days 7)
   \<and> filter is_call (fst (dashboard sample_provider sample_now (ui_aapl\<lparr>period_chosen := Some 0\<rparr>)))
       = [CallInfo ''AAPL'', CallHistory ''AAPL'' (sample_now - timedelta_days 7) sample_now]"
proof -
  have 1: "ticker_input_of ui_aapl = ''AAPL''" by code_simp
  have 2: "''AAPL'' \<noteq> []" by simp
  have 3: "ticker_info sample_provider ''AAPL'' = Inr (Some sample_info)"
    by (simp add: sample_provider_def)
  have 4: "sample_info \<noteq> []" by (simp add: sample_info_def)
  show ?thesis
    using every_run_fetches_profile [OF 1 2 3 4 sample_key_metrics sample_start_week]
      1 2 3 4 sample_key_metrics sample_start_week
    by simp
qed

text \<open>
  The claim as stated fails: the run that follows the selection of a new period
  contains the profile lookup, as the run before it did.
\<close>

theorem period_change_repeats_profile_lookup:
  "CallInfo ''AAPL'' \<in> set (fst (dashboard sample_provider sample_now ui_aapl))
   \<and> CallInfo ''AAPL''
       \<in> set (fst (dashboard sample_provider sample_now (ui_aapl\<lparr>period_chosen := Some 0\<rparr>)))"
  by code_simp

section \<open>Binary64 rounding\<close>

lemma two_pow_eq: "0 \<le> k \<Longrightarrow> two_pow k = 2 ^ nat k"
proof (induction k rule: two_pow.induct)
  case (1 k)
  show ?case
  proof (cases "k \<le> 0")
    case True
    with 1 show ?thesis by (simp add: two_pow.simps)
  next
    case False
    then have ih: "two_pow (k div 2) = 2 ^ nat (k div 2)"
      using 1 by simp
    have k: "k = 2 * (k div 2) + k mod 2" by simp
    show ?thesis
    proof (cases "even k")
      case True
      then have "nat k = nat (k div 2) + nat (k div 2)"
        using False by (auto elim!: evenE)
      then have "(2::int) ^ nat k = 2 ^ nat (k div 2) * 2 ^ nat (k div 2)"
        by (metis power_add)
      then show ?thesis
        using False True ih by (simp add: two_pow.simps [of k] Let_def)
    next
      case odd: False
      then have "nat k = Suc (nat (k div 2) + nat (k div 2))"
        using False by (auto elim!: oddE)
      then have "(2::int) ^ nat k = 2 * (2 ^ nat (k div 2) * 2 ^ nat (k div 2))"
        by (metis power_Suc power_add)
      then show ?thesis
        using False odd ih by (simp add: two_pow.simps [of k] Let_def)
    qed
  qed
qed

lemma exp2_eq: "exp2 e = 2 powi e"
proof (cases "0 \<le> e")
  case True
  then show ?thesis by (simp add: exp2_def two_pow_eq power_int_def)
next
  case False
  then show ?thesis
    by (simp add: exp2_def two_pow_eq power_int_def field_simps power_inverse)
qed

lemma exp2_pos [simp]: "0 < exp2 e"
  by (simp add: exp2_eq)

lemma exp2_nonzero [simp]: "exp2 e \<noteq> 0"
  using exp2_pos [of e] by linarith

lemma exp2_not_le_zero [simp]: "\<not> exp2 e \<le> 0"
  using exp2_pos [of e] by linarith

lemma exp2_not_less_zero [simp]: "\<not> exp2 e < 0"
  using exp2_pos [of e] by linarith

lemma exp2_nonneg [simp]: "0 \<le> exp2 e"
  using exp2_pos [of e] by linarith

lemma exp2_add: "exp2 (a + b) = exp2 a * exp2 b"
  by (simp add: exp2_eq power_int_add)

lemma exp2_mono: "a \<le> b \<Longrightarrow> exp2 a \<le> exp2 b"
  by (simp add: exp2_eq power_int_increasing)

lemma exp2_strict_mono: "a < b \<Longrightarrow> exp2 a < exp2 b"
proof -
  assume "a < b"
  then have "exp2 1 \<le> exp2 (b - a)" by (intro exp2_mono) simp
  moreover have "exp2 1 = 2" by (simp add: exp2_eq)
  moreover have "exp2 b = exp2 a * exp2 (b - a)" by (simp flip: exp2_add)
  moreover have "0 < exp2 a" by simp
  moreover have "exp2 a * 2 \<le> exp2 a * exp2 (b - a)"
    using calculation(1,2) by (simp add: mult_left_mono)
  moreover have "exp2 a < exp2 a * 2"
    using \<open>0 < exp2 a\<close> by simp
  ultimately show ?thesis by linarith
qed

lemma exp2_less_iff: "exp2 a < exp2 b \<longleftrightarrow> a < b"
  using exp2_strict_mono [of a b] exp2_mono [of b a] by (auto simp: not_less [symmetric])

lemma exp2_le_iff: "exp2 a \<le> exp2 b \<longleftrightarrow> a \<le> b"
  using exp2_strict_mono [of b a] exp2_mono [of a b] by (auto simp: not_le [symmetric])

lemma exp2_half: "exp2 e / 2 = exp2 (e - 1)"
proof -
  have "exp2 e = exp2 (e - 1) * exp2 1" by (simp flip: exp2_add)
  moreover have "exp2 1 = 2" by (simp add: exp2_eq)
  ultimately show ?thesis by simp
qed

lemma exp2_1023: "exp2 1023 = 2 ^ 1023"
  by (simp add: exp2_def two_pow_eq)

lemma exp2_1024: "exp2 1024 = 2 ^ 1024"
  by (simp add: exp2_def two_pow_eq)

lemma exp2_m53: "exp2 (- 53) = 1 / 2 ^ 53"
  by (simp add: exp2_def two_pow_eq)

lemma exp2_m1022_le_1: "exp2 (- 1022) \<le> 1"
  using exp2_mono [of "- 1022" 0] by (simp add: exp2_def two_pow.simps)

lemma round_half_even_error: "\<bar>of_int (round_half_even q) - q\<bar> \<le> 1 / 2"
proof -
  have "of_int \<lfloor>q\<rfloor> \<le> q" "q < of_int \<lfloor>q\<rfloor> + 1" by linarith+
  then show ?thesis
    by (auto simp: round_half_even_def Let_def abs_le_iff)
qed

lemma round_half_even_nonneg: "0 \<le> q \<Longrightarrow> 0 \<le> round_half_even q"
  by (auto simp: round_half_even_def Let_def)

lemma round_half_even_of_int [simp]: "round_half_even (of_int n) = n"
  by (simp add: round_half_even_def)

lemma bitlen_exp2:
  assumes "0 < x"
  shows "exp2 (bitlen x - 1) \<le> of_int x" and "of_int x < exp2 (bitlen x)"
proof -
  have pos: "1 \<le> bitlen x"
    using assms bitlen_eq_zero_iff [of x] bitlen_nonneg [of x] by linarith
  have b: "2 ^ nat (bitlen x - 1) \<le> x" "x < 2 ^ nat (bitlen x)"
    using bitlen_bounds [OF assms] by simp_all
  have "exp2 (bitlen x - 1) = of_int (2 ^ nat (bitlen x - 1))"
    using pos by (simp add: exp2_def two_pow_eq)
  then show "exp2 (bitlen x - 1) \<le> of_int x"
    using b(1) by (simp only: of_int_le_iff)
  have "exp2 (bitlen x) = of_int (2 ^ nat (bitlen x))"
    using pos by (simp add: exp2_def two_pow_eq)
  then show "of_int x < exp2 (bitlen x)"
    using b(2) by (simp only: of_int_less_iff)
qed

lemma ilog2_bounds:
  assumes "0 < q"
  shows "exp2 (ilog2 q) \<le> q" and "q < exp2 (ilog2 q + 1)"
proof -
  obtain a b where ab: "quotient_of q = (a, b)" by (cases "quotient_of q")
  have bpos: "0 < b" using ab by (rule quotient_of_denom_pos)
  have q: "q = of_int a / of_int b" using ab by (rule quotient_of_div)
  have apos: "0 < a"
    using assms bpos q by (simp add: zero_less_divide_iff)
  define k where "k = bitlen a - bitlen b"
  note ba = bitlen_exp2 [OF apos] and bb = bitlen_exp2 [OF bpos]
  have B: "(0::rat) < of_int b" using bpos by simp
  have up: "q < exp2 (k + 1)"
  proof -
    have "of_int a < exp2 (bitlen a)" by (rule ba(2))
    also have "exp2 (bitlen a) = exp2 (k + 1) * exp2 (bitlen b - 1)"
      by (simp add: k_def flip: exp2_add)
    also have "\<dots> \<le> exp2 (k + 1) * of_int b"
      using bb(1) by (simp add: mult_left_mono)
    finally show ?thesis
      using B by (simp add: q pos_divide_less_eq)
  qed
  have lo: "exp2 (k - 1) < q"
  proof -
    have "exp2 (k - 1) * of_int b < exp2 (k - 1) * exp2 (bitlen b)"
      using bb(2) by (simp add: mult_strict_left_mono)
    also have "\<dots> = exp2 (bitlen a - 1)"
      by (simp add: k_def flip: exp2_add)
    also have "\<dots> \<le> of_int a" by (rule ba(1))
    finally show ?thesis
      using B by (simp add: q pos_less_divide_eq)
  qed
  have il: "ilog2 q = (if exp2 k \<le> q then k else k - 1)"
    by (simp add: ilog2_def ab k_def Let_def)
  show "exp2 (ilog2 q) \<le> q"
    using lo by (simp add: il)
  show "q < exp2 (ilog2 q + 1)"
    using up by (simp add: il not_le)
qed

lemma ilog2_less: "0 < q \<Longrightarrow> q < exp2 n \<Longrightarrow> ilog2 q < n"
  using ilog2_bounds(1) [of q] exp2_less_iff [of "ilog2 q" n] by linarith

lemma ilog2_ge: "0 < q \<Longrightarrow> exp2 n \<le> q \<Longrightarrow> n \<le> ilog2 q"
  using ilog2_bounds(2) [of q] exp2_less_iff [of n "ilog2 q + 1"] by linarith

lemma round_double_unfold:
  assumes "q \<noteq> 0"
  obtains e m where "e = max (ilog2 \<bar>q\<bar> - 52) (- 1074)"
    and "0 \<le> m"
    and "\<bar>of_int m * exp2 e - \<bar>q\<bar>\<bar> \<le> exp2 e / 2"
    and "round_double q =
           (if exp2 1024 \<le> of_int m * exp2 e then (if q < 0 then NInf else PInf)
            else if m = 0 then (if q < 0 then NegZero else Finite 0)
            else Finite (if q < 0 then - (of_int m * exp2 e) else of_int m * exp2 e))"
proof -
  define e where "e = max (ilog2 \<bar>q\<bar> - 52) (- 1074)"
  define m where "m = round_half_even (\<bar>q\<bar> / exp2 e)"
  have 1: "0 \<le> m"
    unfolding m_def by (rule round_half_even_nonneg) (simp add: less_imp_le)
  have "\<bar>of_int m - \<bar>q\<bar> / exp2 e\<bar> \<le> 1 / 2"
    unfolding m_def by (rule round_half_even_error)
  then have "\<bar>of_int m - \<bar>q\<bar> / exp2 e\<bar> * exp2 e \<le> 1 / 2 * exp2 e"
    by (intro mult_right_mono) (simp_all add: less_imp_le)
  moreover have "\<bar>of_int m - \<bar>q\<bar> / exp2 e\<bar> * exp2 e = \<bar>of_int m * exp2 e - \<bar>q\<bar>\<bar>"
  proof -
    have "\<bar>of_int m - \<bar>q\<bar> / exp2 e\<bar> * exp2 e = \<bar>(of_int m - \<bar>q\<bar> / exp2 e) * exp2 e\<bar>"
      by (simp add: abs_mult less_imp_le)
    also have "(of_int m - \<bar>q\<bar> / exp2 e) * exp2 e = of_int m * exp2 e - \<bar>q\<bar>"
      by (simp add: left_diff_distrib)
    finally show ?thesis .
  qed
  ultimately have 2: "\<bar>of_int m * exp2 e - \<bar>q\<bar>\<bar> \<le> exp2 e / 2" by simp
  have 3: "round_double q =
           (if exp2 1024 \<le> of_int m * exp2 e then (if q < 0 then NInf else PInf)
            else if m = 0 then (if q < 0 then NegZero else Finite 0)
            else Finite (if q < 0 then - (of_int m * exp2 e) else of_int m * exp2 e))"
    using assms by (simp add: round_double_def Let_def e_def m_def)
  show ?thesis
    using that [OF e_def 1 2 3] .
qed

lemma round_double_overflow:
  assumes "exp2 1024 \<le> \<bar>q\<bar>"
  shows "is_inf (round_double q)"
proof -
  have q0: "q \<noteq> 0" using assms exp2_pos [of 1024] by auto
  then have a: "0 < \<bar>q\<bar>" by simp
  obtain e m where e: "e = max (ilog2 \<bar>q\<bar> - 52) (- 1074)"
    and err: "\<bar>of_int m * exp2 e - \<bar>q\<bar>\<bar> \<le> exp2 e / 2"
    and r: "round_double q =
           (if exp2 1024 \<le> of_int m * exp2 e then (if q < 0 then NInf else PInf)
            else if m = 0 then (if q < 0 then NegZero else Finite 0)
            else Finite (if q < 0 then - (of_int m * exp2 e) else of_int m * exp2 e))"
    using round_double_unfold [OF q0] by metis
  define l where "l = ilog2 \<bar>q\<bar>"
  have l: "1024 \<le> l" unfolding l_def using a assms by (rule ilog2_ge)
  then have e': "e = l - 52" using e by (simp add: l_def)
  have "exp2 l \<le> \<bar>q\<bar>" unfolding l_def using a by (rule ilog2_bounds)
  then have "exp2 l - exp2 e / 2 \<le> of_int m * exp2 e" using err by linarith
  moreover have "exp2 l = exp2 52 * exp2 e" by (simp add: e' flip: exp2_add)
  ultimately have "(exp2 52 - 1 / 2) * exp2 e \<le> of_int m * exp2 e"
    by (simp add: left_diff_distrib)
  then have "exp2 52 - 1 / 2 \<le> of_int m"
    by (simp add: mult_le_cancel_right)
  moreover have "exp2 52 = of_int (2 ^ 52)"
    by (simp add: exp2_def two_pow_eq)
  ultimately have "of_int (2 ^ 52) - 1 / 2 \<le> (of_int m :: rat)" by simp
  then have "(of_int (2 ^ 52 - 1) :: rat) < of_int m" by simp
  then have "2 ^ 52 - 1 < m" by (simp only: of_int_less_iff)
  then have "2 ^ 52 \<le> m" by simp
  then have "(of_int (2 ^ 52) :: rat) \<le> of_int m" by (simp only: of_int_le_iff)
  then have "exp2 52 \<le> of_int m" using \<open>exp2 52 = of_int (2 ^ 52)\<close> by simp
  then have "exp2 52 * exp2 e \<le> of_int m * exp2 e"
    by (simp add: mult_le_cancel_right)
  then have "exp2 l \<le> of_int m * exp2 e"
    using \<open>exp2 l = exp2 52 * exp2 e\<close> by simp
  moreover have "exp2 1024 \<le> exp2 l" using l by (rule exp2_mono)
  ultimately have "exp2 1024 \<le> of_int m * exp2 e" by linarith
  then show ?thesis by (simp add: r)
qed

lemma round_double_no_overflow:
  assumes "\<bar>q\<bar> < exp2 1023"
  shows "\<not> is_inf (round_double q)"
proof (cases "q = 0")
  case True
  then show ?thesis by (simp add: round_double_def)
next
  case q0: False
  then have a: "0 < \<bar>q\<bar>" by simp
  obtain e m where e: "e = max (ilog2 \<bar>q\<bar> - 52) (- 1074)"
    and err: "\<bar>of_int m * exp2 e - \<bar>q\<bar>\<bar> \<le> exp2 e / 2"
    and r: "round_double q =
           (if exp2 1024 \<le> of_int m * exp2 e then (if q < 0 then NInf else PInf)
            else if m = 0 then (if q < 0 then NegZero else Finite 0)
            else Finite (if q < 0 then - (of_int m * exp2 e) else of_int m * exp2 e))"
    using round_double_unfold [OF q0] by metis
  have "ilog2 \<bar>q\<bar> < 1023" using a assms by (rule ilog2_less)
  then have "e \<le> 970" using e by simp
  then have "exp2 (e - 1) \<le> exp2 969" by (intro exp2_mono) simp
  then have "of_int m * exp2 e \<le> \<bar>q\<bar> + exp2 969"
    using err by (simp add: exp2_half abs_le_iff)
  moreover have "exp2 969 \<le> exp2 1023" by (intro exp2_mono) simp
  moreover have "exp2 1024 = exp2 1023 + exp2 1023"
  proof -
    have "exp2 1024 = exp2 1023 * exp2 1" by (simp flip: exp2_add)
    then show ?thesis by (simp add: exp2_eq)
  qed
  ultimately have "of_int m * exp2 e < exp2 1024" using assms by linarith
  then show ?thesis by (simp add: r)
qed

lemma round_double_normal:
  assumes "exp2 (- 1022) \<le> \<bar>q\<bar>" and "\<bar>q\<bar> < exp2 1023"
  obtains x where "round_double q = Finite x" and "\<bar>x - q\<bar> \<le> \<bar>q\<bar> * exp2 (- 53)"
    and "x < 0 \<longleftrightarrow> q < 0" and "x \<noteq> 0"
proof -
  have q0: "q \<noteq> 0" using assms(1) exp2_pos [of "- 1022"] by auto
  then have a: "0 < \<bar>q\<bar>" by simp
  obtain e m where e: "e = max (ilog2 \<bar>q\<bar> - 52) (- 1074)" and m0: "0 \<le> m"
    and err: "\<bar>of_int m * exp2 e - \<bar>q\<bar>\<bar> \<le> exp2 e / 2"
    and r: "round_double q =
           (if exp2 1024 \<le> of_int m * exp2 e then (if q < 0 then NInf else PInf)
            else if m = 0 then (if q < 0 then NegZero else Finite 0)
            else Finite (if q < 0 then - (of_int m * exp2 e) else of_int m * exp2 e))"
    using round_double_unfold [OF q0] by metis
  define l where "l = ilog2 \<bar>q\<bar>"
  define v where "v = of_int m * exp2 e"
  have "- 1022 \<le> l" unfolding l_def using a assms(1) by (rule ilog2_ge)
  then have e': "e = l - 52" using e by (simp add: l_def)
  have lq: "exp2 l \<le> \<bar>q\<bar>" unfolding l_def using a by (rule ilog2_bounds)
  have "exp2 e / 2 = exp2 l * exp2 (- 53)"
    by (simp add: exp2_half e' flip: exp2_add)
  also have "\<dots> \<le> \<bar>q\<bar> * exp2 (- 53)"
    using lq by (simp add: mult_right_mono less_imp_le)
  finally have bound: "\<bar>v - \<bar>q\<bar>\<bar> \<le> \<bar>q\<bar> * exp2 (- 53)"
    using err by (simp add: v_def)
  have "exp2 (- 53) < 1"
    using exp2_strict_mono [of "- 53" 0] by (simp add: exp2_eq)
  then have "\<bar>q\<bar> * exp2 (- 53) < \<bar>q\<bar>" using a by simp
  then have vpos: "0 < v" using bound by (simp add: abs_le_iff)
  then have m: "m \<noteq> 0" by (auto simp: v_def)
  have "\<not> is_inf (round_double q)" using assms(2) by (rule round_double_no_overflow)
  then have noov: "\<not> exp2 1024 \<le> v" using r by (auto simp: v_def split: if_splits)
  have res: "round_double q = Finite (if q < 0 then - v else v)"
    using r noov m by (simp add: v_def)
  show ?thesis
  proof (rule that [OF res])
    show "\<bar>(if q < 0 then - v else v) - q\<bar> \<le> \<bar>q\<bar> * exp2 (- 53)"
      using bound by (auto simp: abs_if split: if_splits)
    show "((if q < 0 then - v else v) < 0) = (q < 0)" using vpos by auto
    show "(if q < 0 then - v else v) \<noteq> 0" using vpos by auto
  qed
qed

lemma sign_bit_round_double: "sign_bit (round_double q) = (q < 0)"
proof (cases "q = 0")
  case True
  then show ?thesis by (simp add: round_double_def)
next
  case False
  then obtain e m where m0: "0 \<le> m"
    and r: "round_double q =
           (if exp2 1024 \<le> of_int m * exp2 e then (if q < 0 then NInf else PInf)
            else if m = 0 then (if q < 0 then NegZero else Finite 0)
            else Finite (if q < 0 then - (of_int m * exp2 e) else of_int m * exp2 e))"
    using round_double_unfold [of q] by metis
  have "m \<noteq> 0 \<Longrightarrow> 0 < of_int m * exp2 e"
    using m0 by (simp add: zero_less_mult_iff)
  then show ?thesis
    using False by (auto simp: r not_less less_imp_le)
qed

text \<open>
  The exact overflow threshold: a number rounds to an infinity exactly from
  \<open>2\<^sup>1\<^sup>0\<^sup>2\<^sup>4 - 2\<^sup>9\<^sup>7\<^sup>0\<close> on, the midpoint between the largest double and \<open>2\<^sup>1\<^sup>0\<^sup>2\<^sup>4\<close>, and
  every finite result of the rounding lies below it.
\<close>

lemma exp2_double: "exp2 (e + 1) = 2 * exp2 e"
proof -
  have "exp2 (e + 1) = exp2 e * exp2 1" by (simp only: exp2_add)
  moreover have "exp2 1 = 2" by (simp add: exp2_eq)
  ultimately show ?thesis by simp
qed

lemma exp2_top:
  "exp2 1024 = 2 * exp2 1023" "exp2 971 = 2 * exp2 970" "exp2 970 = 2 * exp2 969"
  "exp2 970 \<le> exp2 1023" "exp2 1024 = exp2 53 * exp2 971" "exp2 53 = of_int (2 ^ 53)"
proof -
  show "exp2 1024 = 2 * exp2 1023" using exp2_double [of 1023] by simp
  show "exp2 971 = 2 * exp2 970" using exp2_double [of 970] by simp
  show "exp2 970 = 2 * exp2 969" using exp2_double [of 969] by simp
  show "exp2 970 \<le> exp2 1023" by (intro exp2_mono) simp
  show "exp2 1024 = exp2 53 * exp2 971" by (simp flip: exp2_add)
  show "exp2 53 = of_int (2 ^ 53)" by (simp add: exp2_def two_pow_eq)
qed

lemma exp2_threshold: "exp2 1024 - exp2 970 = 2 ^ 1024 - 2 ^ 970"
  by (simp add: exp2_def two_pow_eq)

lemma round_half_even_less:
  assumes "q < of_int n - 1 / 2"
  shows "round_half_even q < n"
proof -
  have "\<bar>of_int (round_half_even q) - q\<bar> \<le> 1 / 2" by (rule round_half_even_error)
  then have "of_int (round_half_even q) - q \<le> 1 / 2" by linarith
  then have "(of_int (round_half_even q) :: rat) < of_int n" using assms by linarith
  then show ?thesis by (simp only: of_int_less_iff)
qed

lemma round_half_even_ge_floor: "\<lfloor>q\<rfloor> \<le> round_half_even q"
  by (simp add: round_half_even_def Let_def)

lemma round_half_even_ge_even:
  assumes "even n" and "of_int n - 1 / 2 \<le> q"
  shows "n \<le> round_half_even q"
proof (cases "of_int n \<le> q")
  case True
  then have "n \<le> \<lfloor>q\<rfloor>" by (simp add: le_floor_iff)
  then show ?thesis using round_half_even_ge_floor [of q] by linarith
next
  case False
  have f: "\<lfloor>q\<rfloor> = n - 1"
  proof (rule floor_unique)
    show "of_int (n - 1) \<le> q" using assms(2) by simp
    show "q < of_int (n - 1) + 1" using False by simp
  qed
  have o: "odd (n - 1)" using assms(1) by simp
  have "\<not> q - of_int (n - 1) < 1 / 2" using assms(2) by simp
  then have "round_half_even q = n"
    using o by (simp add: round_half_even_def Let_def f del: of_int_diff)
  then show ?thesis by simp
qed

lemma round_double_top:
  assumes "exp2 1023 \<le> \<bar>q\<bar>" and "\<bar>q\<bar> < exp2 1024"
  obtains m where "m = round_half_even (\<bar>q\<bar> / exp2 971)" and "0 \<le> m"
    and "round_double q =
           (if exp2 53 \<le> of_int m then (if q < 0 then NInf else PInf)
            else if m = 0 then (if q < 0 then NegZero else Finite 0)
            else Finite (if q < 0 then - (of_int m * exp2 971) else of_int m * exp2 971))"
proof -
  have q0: "q \<noteq> 0" using assms(1) exp2_pos [of 1023] by auto
  then have a: "0 < \<bar>q\<bar>" by simp
  have "1023 \<le> ilog2 \<bar>q\<bar>" using a assms(1) by (rule ilog2_ge)
  moreover have "ilog2 \<bar>q\<bar> < 1024" using a assms(2) by (rule ilog2_less)
  ultimately have il: "ilog2 \<bar>q\<bar> = 1023" by simp
  define m where "m = round_half_even (\<bar>q\<bar> / exp2 971)"
  have m0: "0 \<le> m"
    unfolding m_def by (rule round_half_even_nonneg) (simp add: less_imp_le)
  have c: "exp2 1024 \<le> of_int m * exp2 971 \<longleftrightarrow> exp2 53 \<le> of_int m"
    by (simp add: exp2_top(5) mult_le_cancel_right)
  have "round_double q =
           (if exp2 1024 \<le> of_int m * exp2 971 then (if q < 0 then NInf else PInf)
            else if m = 0 then (if q < 0 then NegZero else Finite 0)
            else Finite (if q < 0 then - (of_int m * exp2 971) else of_int m * exp2 971))"
    using q0 by (simp add: round_double_def Let_def il m_def)
  then have "round_double q =
           (if exp2 53 \<le> of_int m then (if q < 0 then NInf else PInf)
            else if m = 0 then (if q < 0 then NegZero else Finite 0)
            else Finite (if q < 0 then - (of_int m * exp2 971) else of_int m * exp2 971))"
    by (simp only: c)
  then show ?thesis using that [OF m_def m0] by blast
qed

lemma threshold_scaled:
  "exp2 1024 - exp2 970 \<le> \<bar>q\<bar> \<longleftrightarrow> of_int (2 ^ 53) - 1 / 2 \<le> \<bar>q\<bar> / exp2 971"
proof -
  have "exp2 1024 - exp2 970 = (of_int (2 ^ 53) - 1 / 2) * exp2 971"
    using exp2_top(2,5,6) by (simp add: left_diff_distrib)
  then show ?thesis
    by (simp only: pos_le_divide_eq [OF exp2_pos])
qed

lemma round_double_inf_iff: "is_inf (round_double q) \<longleftrightarrow> exp2 1024 - exp2 970 \<le> \<bar>q\<bar>"
proof (cases "exp2 1024 \<le> \<bar>q\<bar>")
  case True
  moreover have "0 < exp2 970" by simp
  ultimately have "exp2 1024 - exp2 970 \<le> \<bar>q\<bar>" by linarith
  then show ?thesis using round_double_overflow [OF True] by simp
next
  case False
  then have lt: "\<bar>q\<bar> < exp2 1024" by simp
  show ?thesis
  proof (cases "\<bar>q\<bar> < exp2 1023")
    case True
    have "\<not> exp2 1024 - exp2 970 \<le> \<bar>q\<bar>"
      using True exp2_top(1,4) by linarith
    then show ?thesis using round_double_no_overflow [OF True] by simp
  next
    case False
    then have ge: "exp2 1023 \<le> \<bar>q\<bar>" by simp
    obtain m where m: "m = round_half_even (\<bar>q\<bar> / exp2 971)"
      and r: "round_double q =
           (if exp2 53 \<le> of_int m then (if q < 0 then NInf else PInf)
            else if m = 0 then (if q < 0 then NegZero else Finite 0)
            else Finite (if q < 0 then - (of_int m * exp2 971) else of_int m * exp2 971))"
      using round_double_top [OF ge lt] by metis
    have i: "is_inf (round_double q) \<longleftrightarrow> exp2 53 \<le> of_int m"
      by (simp add: r)
    have j: "exp2 53 \<le> of_int m \<longleftrightarrow> 2 ^ 53 \<le> m"
      by (simp only: exp2_top(6) of_int_le_iff)
    show ?thesis
    proof (cases "of_int (2 ^ 53) - 1 / 2 \<le> \<bar>q\<bar> / exp2 971")
      case True
      have "even ((2::int) ^ 53)" by simp
      then have "2 ^ 53 \<le> m" unfolding m using True by (rule round_half_even_ge_even)
      then show ?thesis using True i j threshold_scaled [of q] by blast
    next
      case False
      then have "\<bar>q\<bar> / exp2 971 < of_int (2 ^ 53) - 1 / 2" by simp
      then have "m < 2 ^ 53" unfolding m by (rule round_half_even_less)
      then have "\<not> 2 ^ 53 \<le> m" by simp
      then show ?thesis using False i j threshold_scaled [of q] by blast
    qed
  qed
qed

lemma round_double_near:
  assumes "exp2 (- 1022) \<le> \<bar>q\<bar>" and "\<bar>q\<bar> < exp2 1024 - exp2 970"
  obtains x where "round_double q = Finite x" and "\<bar>x - q\<bar> \<le> \<bar>q\<bar> * exp2 (- 53)"
    and "x < 0 \<longleftrightarrow> q < 0" and "x \<noteq> 0"
proof -
  have q0: "q \<noteq> 0" using assms(1) exp2_pos [of "- 1022"] by auto
  then have a: "0 < \<bar>q\<bar>" by simp
  obtain e m where e: "e = max (ilog2 \<bar>q\<bar> - 52) (- 1074)" and m0: "0 \<le> m"
    and err: "\<bar>of_int m * exp2 e - \<bar>q\<bar>\<bar> \<le> exp2 e / 2"
    and r: "round_double q =
           (if exp2 1024 \<le> of_int m * exp2 e then (if q < 0 then NInf else PInf)
            else if m = 0 then (if q < 0 then NegZero else Finite 0)
            else Finite (if q < 0 then - (of_int m * exp2 e) else of_int m * exp2 e))"
    using round_double_unfold [OF q0] by metis
  define l where "l = ilog2 \<bar>q\<bar>"
  define v where "v = of_int m * exp2 e"
  have "- 1022 \<le> l" unfolding l_def using a assms(1) by (rule ilog2_ge)
  then have e': "e = l - 52" using e by (simp add: l_def)
  have lq: "exp2 l \<le> \<bar>q\<bar>" unfolding l_def using a by (rule ilog2_bounds)
  have "exp2 e / 2 = exp2 l * exp2 (- 53)"
    by (simp add: exp2_half e' flip: exp2_add)
  also have "\<dots> \<le> \<bar>q\<bar> * exp2 (- 53)"
    using lq by (simp add: mult_right_mono less_imp_le)
  finally have bound: "\<bar>v - \<bar>q\<bar>\<bar> \<le> \<bar>q\<bar> * exp2 (- 53)"
    using err by (simp add: v_def)
  have "exp2 (- 53) < 1"
    using exp2_strict_mono [of "- 53" 0] by (simp add: exp2_eq)
  then have "\<bar>q\<bar> * exp2 (- 53) < \<bar>q\<bar>" using a by simp
  then have vpos: "0 < v" using bound by (simp add: abs_le_iff)
  then have m: "m \<noteq> 0" by (auto simp: v_def)
  have "\<not> is_inf (round_double q)" using assms(2) by (simp add: round_double_inf_iff)
  then have noov: "\<not> exp2 1024 \<le> v" using r by (auto simp: v_def split: if_splits)
  have res: "round_double q = Finite (if q < 0 then - v else v)"
    using r noov m by (simp add: v_def)
  show ?thesis
  proof (rule that [OF res])
    show "\<bar>(if q < 0 then - v else v) - q\<bar> \<le> \<bar>q\<bar> * exp2 (- 53)"
      using bound by (auto simp: abs_if split: if_splits)
    show "((if q < 0 then - v else v) < 0) = (q < 0)" using vpos by auto
    show "(if q < 0 then - v else v) \<noteq> 0" using vpos by auto
  qed
qed

lemma round_double_range:
  assumes "round_double q = Finite y"
  shows "\<bar>y\<bar> < exp2 1024 - exp2 970"
proof (cases "q = 0")
  case True
  then have "y = 0" using assms by (simp add: round_double_def)
  moreover have "0 < exp2 1024 - exp2 970"
    using exp2_strict_mono [of 970 1024] by simp
  ultimately show ?thesis by simp
next
  case q0: False
  then have a: "0 < \<bar>q\<bar>" by simp
  have "\<not> is_inf (round_double q)" using assms by simp
  then have lt: "\<bar>q\<bar> < exp2 1024 - exp2 970" by (simp add: round_double_inf_iff)
  show ?thesis
  proof (cases "\<bar>q\<bar> < exp2 1023")
    case True
    obtain e m where e: "e = max (ilog2 \<bar>q\<bar> - 52) (- 1074)" and m0: "0 \<le> m"
      and err: "\<bar>of_int m * exp2 e - \<bar>q\<bar>\<bar> \<le> exp2 e / 2"
      and r: "round_double q =
           (if exp2 1024 \<le> of_int m * exp2 e then (if q < 0 then NInf else PInf)
            else if m = 0 then (if q < 0 then NegZero else Finite 0)
            else Finite (if q < 0 then - (of_int m * exp2 e) else of_int m * exp2 e))"
      using round_double_unfold [OF q0] by metis
    have v0: "0 \<le> of_int m * exp2 e" using m0 by simp
    have "ilog2 \<bar>q\<bar> < 1023" using a True by (rule ilog2_less)
    then have "e \<le> 970" using e by simp
    then have "exp2 (e - 1) \<le> exp2 969" by (intro exp2_mono) simp
    then have "of_int m * exp2 e \<le> \<bar>q\<bar> + exp2 969"
      using err by (simp add: exp2_half abs_le_iff)
    moreover have "exp2 971 \<le> exp2 1023" by (intro exp2_mono) simp
    ultimately have b: "of_int m * exp2 e < exp2 1024 - exp2 970"
      using True exp2_top(1,2,3) exp2_pos [of 969] by linarith
    have "\<bar>y\<bar> = of_int m * exp2 e \<or> y = 0"
      using assms v0 unfolding r by (auto split: if_splits)
    then show ?thesis using b v0 by auto
  next
    case False
    then have ge: "exp2 1023 \<le> \<bar>q\<bar>" by simp
    have lt': "\<bar>q\<bar> < exp2 1024" using lt exp2_pos [of 970] by linarith
    obtain m where m: "m = round_half_even (\<bar>q\<bar> / exp2 971)" and m0: "0 \<le> m"
      and r: "round_double q =
           (if exp2 53 \<le> of_int m then (if q < 0 then NInf else PInf)
            else if m = 0 then (if q < 0 then NegZero else Finite 0)
            else Finite (if q < 0 then - (of_int m * exp2 971) else of_int m * exp2 971))"
      using round_double_top [OF ge lt'] by metis
    have v0: "0 \<le> of_int m * exp2 971" using m0 by simp
    have "\<not> exp2 53 \<le> of_int m" using assms unfolding r by (auto split: if_splits)
    then have "(of_int m :: rat) < of_int (2 ^ 53)" by (simp only: exp2_top(6) not_le)
    then have "m < 2 ^ 53" by (simp only: of_int_less_iff)
    then have "m \<le> 2 ^ 53 - 1" by simp
    then have "(of_int m :: rat) \<le> of_int (2 ^ 53 - 1)" by (simp only: of_int_le_iff)
    then have "(of_int m :: rat) \<le> exp2 53 - 1" by (simp add: exp2_top(6))
    then have "of_int m * exp2 971 \<le> (exp2 53 - 1) * exp2 971"
      by (intro mult_right_mono) simp_all
    also have "\<dots> = exp2 1024 - exp2 971" by (simp add: left_diff_distrib exp2_top(5))
    finally have b: "of_int m * exp2 971 < exp2 1024 - exp2 970"
      using exp2_top(2) exp2_pos [of 970] by linarith
    have "\<bar>y\<bar> = of_int m * exp2 971 \<or> y = 0"
      using assms v0 unfolding r by (auto split: if_splits)
    then show ?thesis using b v0 by auto
  qed
qed

section \<open>The two-decimal format\<close>

lemma digit_cases:
  assumes "0 \<le> d" "d \<le> 9"
  shows "d = 0 \<or> d = 1 \<or> d = 2 \<or> d = 3 \<or> d = 4 \<or> d = 5 \<or> d = 6 \<or> d = 7 \<or> d = 8 \<or> d = (9::int)"
  using assms by presburger

lemma digit_char_digit:
  assumes "0 \<le> d" "d \<le> 9"
  shows "is_digit (digit_char d)" and "digit_value (digit_char d) = d"
    and "digit_char d \<noteq> CHR ''-''" and "digit_char d \<noteq> CHR ''+''" and "digit_char d \<noteq> CHR ''.''"
  using digit_cases [OF assms]
  by (auto simp: digit_char_def is_digit_def digit_value_def)

lemma digits_value_snoc: "digits_value (xs @ [c]) = 10 * digits_value xs + digit_value c"
  by (simp add: digits_value_def)

lemma str_digits_props:
  "0 \<le> n \<Longrightarrow> str_digits n \<noteq> [] \<and> list_all is_digit (str_digits n)
     \<and> digits_value (str_digits n) = n"
proof (induction n rule: str_digits.induct)
  case (1 n)
  show ?case
  proof (cases "n < 10")
    case True
    then have "str_digits n = [digit_char n]" by (simp add: str_digits.simps)
    moreover have "digits_value [digit_char n] = n"
      using digit_char_digit(2) [of n] True 1(2) by (simp add: digits_value_def)
    ultimately show ?thesis
      using digit_char_digit(1) [of n] True 1(2) by simp
  next
    case False
    then have s: "str_digits n = str_digits (n div 10) @ [digit_char (n mod 10)]"
      by (simp add: str_digits.simps [of n])
    have ih: "str_digits (n div 10) \<noteq> [] \<and> list_all is_digit (str_digits (n div 10))
       \<and> digits_value (str_digits (n div 10)) = n div 10"
      using 1 False by simp
    have d: "0 \<le> n mod 10" "n mod 10 \<le> 9" by simp_all
    show ?thesis
      using ih digit_char_digit(1,2) [OF d] by (simp add: s digits_value_snoc)
  qed
qed

lemma is_digit_not_sign:
  "is_digit c \<Longrightarrow> c \<noteq> CHR ''-'' \<and> c \<noteq> CHR ''+'' \<and> c \<noteq> CHR ''.''"
  by (auto simp: is_digit_def)

lemma fixed2_props:
  assumes "0 \<le> q"
  shows "two_decimals (fixed2 q)" and "\<not> minus_sign (fixed2 q)"
    and "\<bar>read_2f (fixed2 q) - q\<bar> \<le> 1 / 200"
    and "CHR ''+'' \<notin> set (fixed2 q)" and "is_digit (last (fixed2 q))"
proof -
  define n where "n = round_half_even (q * 100)"
  define ds where "ds = str_digits (n div 100)"
  define a where "a = digit_char (n mod 100 div 10)"
  define b where "b = digit_char (n mod 10)"
  have n0: "0 \<le> n" unfolding n_def using assms by (intro round_half_even_nonneg) simp
  have f: "fixed2 q = ds @ ''.'' @ [a, b]"
    by (simp add: fixed2_def Let_def n_def ds_def a_def b_def)
  have dsp: "ds \<noteq> []" "list_all is_digit ds" "digits_value ds = n div 100"
    using str_digits_props [of "n div 100"] n0 by (simp_all add: ds_def pos_imp_zdiv_nonneg_iff)
  have ra: "0 \<le> n mod 100 div 10" "n mod 100 div 10 \<le> 9" by presburger+
  have rb: "0 \<le> n mod 10" "n mod 10 \<le> 9" by presburger+
  note da = digit_char_digit [OF ra, folded a_def] and db = digit_char_digit [OF rb, folded b_def]
  show "two_decimals (fixed2 q)"
    using dsp da(1) db(1) by (simp add: f two_decimals_def)
  have hd: "is_digit (hd ds)" using dsp by (cases ds) simp_all
  show ns: "\<not> minus_sign (fixed2 q)"
    using dsp(1) hd is_digit_not_sign [of "hd ds"] by (cases ds) (simp_all add: f minus_sign_def)
  have "filter is_digit (fixed2 q) = ds @ [a, b]"
    using dsp(2) da(1) db(1) by (simp add: f is_digit_def list_all_iff filter_id_conv)
  then have "digits_value (filter is_digit (fixed2 q)) = 10 * (10 * (n div 100) + n mod 100 div 10) + n mod 10"
    using digits_value_snoc [of "ds @ [a]" b] digits_value_snoc [of ds a] dsp(3) da(2) db(2)
    by simp
  also have "\<dots> = n"
  proof -
    define h where "h = n div 100"
    define r where "r = n mod 100"
    define t where "t = r div 10"
    define u where "u = r mod 10"
    have 1: "n = 100 * h + r" by (simp add: h_def r_def)
    have 2: "r = 10 * t + u" by (simp add: t_def u_def)
    have 3: "u = n mod 10" by (simp add: u_def r_def mod_mod_cancel)
    have "10 * (10 * h + t) + u = n" using 1 2 by simp
    then show ?thesis by (simp add: h_def t_def r_def 3 [symmetric])
  qed
  finally have "read_2f (fixed2 q) = of_int n / 100"
    using ns by (simp add: read_2f_def)
  moreover have "\<bar>of_int n - q * 100\<bar> \<le> 1 / 2"
    unfolding n_def by (rule round_half_even_error)
  ultimately show "\<bar>read_2f (fixed2 q) - q\<bar> \<le> 1 / 200"
    unfolding abs_le_iff by linarith
  show "CHR ''+'' \<notin> set (fixed2 q)"
    using dsp(2) da(4) db(4) is_digit_not_sign by (auto simp: f list_all_iff)
  show "is_digit (last (fixed2 q))"
    using db(1) by (simp add: f)
qed

lemma float_format_2f_finite:
  shows "two_decimals (unsigned (float_format_2f (Finite v)))"
    and "minus_sign (float_format_2f (Finite v)) \<longleftrightarrow> v < 0"
    and "\<bar>read_2f (float_format_2f (Finite v)) - v\<bar> \<le> 1 / 200"
    and "CHR ''+'' \<notin> set (float_format_2f (Finite v))"
    and "is_digit (last (float_format_2f (Finite v)))"
proof -
  show "two_decimals (unsigned (float_format_2f (Finite v)))"
    using fixed2_props(1,2) [of v] fixed2_props(1) [of "- v"]
    by (auto simp: unsigned_def minus_sign_def)
  show "minus_sign (float_format_2f (Finite v)) \<longleftrightarrow> v < 0"
    using fixed2_props(2) [of v] by (auto simp: minus_sign_def)
  show "\<bar>read_2f (float_format_2f (Finite v)) - v\<bar> \<le> 1 / 200"
  proof (cases "v < 0")
    case True
    have "filter is_digit (''-'' @ fixed2 (- v)) = filter is_digit (fixed2 (- v))"
      by (simp add: is_digit_def)
    then have "read_2f (''-'' @ fixed2 (- v)) = - read_2f (fixed2 (- v))"
      using fixed2_props(2) [of "- v"] True by (simp add: read_2f_def minus_sign_def)
    moreover have "\<bar>- read_2f (fixed2 (- v)) - v\<bar> = \<bar>read_2f (fixed2 (- v)) - (- v)\<bar>"
      by (simp add: abs_minus_commute)
    ultimately show ?thesis
      using fixed2_props(3) [of "- v"] True by simp
  next
    case False
    then show ?thesis using fixed2_props(3) [of v] by simp
  qed
  show "CHR ''+'' \<notin> set (float_format_2f (Finite v))"
    using fixed2_props(4) [of v] fixed2_props(4) [of "- v"] by auto
  have "fixed2 (- v) \<noteq> []" by (simp add: fixed2_def Let_def)
  then show "is_digit (last (float_format_2f (Finite v)))"
    using fixed2_props(5) [of v] fixed2_props(5) [of "- v"] by auto
qed

lemma float_format_2f_is_finite:
  assumes "is_finite x"
  shows "two_decimals (unsigned (float_format_2f x))"
    and "minus_sign (float_format_2f x) \<longleftrightarrow> sign_bit x"
    and "\<bar>read_2f (float_format_2f x) - rat_of_float x\<bar> \<le> 1 / 200"
    and "CHR ''+'' \<notin> set (float_format_2f x)"
proof -
  have z: "two_decimals (unsigned ''-0.00'')" "minus_sign ''-0.00''" "read_2f ''-0.00'' = 0"
    by (simp_all add: two_decimals_def unsigned_def minus_sign_def read_2f_def is_digit_def
        digits_value_def digit_value_def)
  show "two_decimals (unsigned (float_format_2f x))"
    using assms z(1) float_format_2f_finite(1) by (cases x) simp_all
  show "minus_sign (float_format_2f x) \<longleftrightarrow> sign_bit x"
    using assms z(2) float_format_2f_finite(2) by (cases x) simp_all
  show "\<bar>read_2f (float_format_2f x) - rat_of_float x\<bar> \<le> 1 / 200"
    using assms z(3) float_format_2f_finite(3) by (cases x) simp_all
  show "CHR ''+'' \<notin> set (float_format_2f x)"
    using assms float_format_2f_finite(4) by (cases x) simp_all
qed

lemma float_format_2f_sign:
  "sign_bit x \<Longrightarrow> minus_sign (float_format_2f x)"
  by (cases x) (auto simp: minus_sign_def)

lemma float_format_2f_last:
  "last (float_format_2f x) \<notin> set ''KMBT''"
proof (cases x)
  case (Finite v)
  have "is_digit (last (float_format_2f (Finite v)))" by (rule float_format_2f_finite)
  then show ?thesis unfolding Finite by (auto simp: is_digit_def)
qed simp_all

lemma float_format_2f_nonempty: "float_format_2f x \<noteq> []"
  by (cases x) (auto simp: fixed2_def Let_def)

section \<open>Large numbers\<close>

lemma float_of_int_scales:
  "float_of_int 1000 = Inr (Finite 1000)"
  "float_of_int 1000000 = Inr (Finite 1000000)"
  "float_of_int 1000000000 = Inr (Finite 1000000000)"
  "float_of_int 1000000000000 = Inr (Finite 1000000000000)"
  by code_simp+

lemma number_value_cases:
  assumes "number_value num = Some v"
  obtains n where "num = PInt n" "v = of_int n" | "num = PFloat (Finite v)"
  using assms by (cases num rule: number_value.cases) auto

lemma py_ge_value: "number_value num = Some v \<Longrightarrow> py_ge num k = Inr (of_int k \<le> v)"
  by (erule number_value_cases) auto

lemma scaled_wide:
  assumes nv: "number_value num = Some v"
    and k: "k = 1000 \<or> k = 1000000 \<or> k = 1000000000 \<or> k = 1000000000000"
    and ge: "of_int k \<le> v" and lt: "v / of_int k < 2 ^ 1024 - 2 ^ 970"
  obtains x where "scaled num k sfx = Inr (''$'' @ float_format_2f (Finite x) @ sfx)"
    and "\<bar>x - v / of_int k\<bar> \<le> v / of_int k * exp2 (- 53)" and "0 < x"
proof -
  have kpos: "(0::rat) < of_int k" "0 < k" "(1::rat) \<le> of_int k" using k by auto
  have vpos: "0 < v" using ge kpos by linarith
  define q where "q = v / of_int k"
  have q1: "1 \<le> q" using ge kpos by (simp add: q_def pos_le_divide_eq)
  then have qa: "\<bar>q\<bar> = q" by simp
  have "q < exp2 1024 - exp2 970" using lt by (simp only: q_def exp2_threshold)
  then have "\<bar>q\<bar> < exp2 1024 - exp2 970" by (simp only: qa)
  moreover have "exp2 (- 1022) \<le> \<bar>q\<bar>" using q1 exp2_m1022_le_1 by linarith
  ultimately obtain x where x: "round_double q = Finite x" "\<bar>x - q\<bar> \<le> \<bar>q\<bar> * exp2 (- 53)"
    "x < 0 \<longleftrightarrow> q < 0" "x \<noteq> 0"
    using round_double_near [of q] by metis
  have xpos: "0 < x" using x(3,4) q1 by linarith
  have fk: "float_of_int k = Inr (Finite (of_int k))"
    using k float_of_int_scales by auto
  have "py_truediv num (PInt k) = Inr (Finite x)"
  proof (rule number_value_cases [OF nv])
    fix n assume n: "num = PInt n" "v = of_int n"
    then have "n \<noteq> 0" using vpos by auto
    moreover have "round_double (of_int n / of_int k) = Finite x"
      using x(1) by (simp add: q_def n)
    ultimately show ?thesis
      using kpos(2) by (simp add: n py_truediv_def int_truediv_def)
  next
    assume n: "num = PFloat (Finite v)"
    have "round_double (v / of_int k) = Finite x"
      using x(1) by (simp add: q_def)
    then show ?thesis
      using kpos(2) vpos
      by (simp add: n py_truediv_def fk float_div_def is_zero_def)
  qed
  then have "scaled num k sfx = Inr (''$'' @ float_format_2f (Finite x) @ sfx)"
    by (simp add: scaled_def)
  moreover have "\<bar>x - v / of_int k\<bar> \<le> v / of_int k * exp2 (- 53)"
  proof -
    have "\<bar>x - q\<bar> \<le> q * exp2 (- 53)" using x(2) by (simp only: qa)
    then show ?thesis by (simp only: q_def)
  qed
  ultimately show ?thesis using that xpos by blast
qed

lemma plain_wide:
  assumes nv: "number_value num = Some v" and lt: "\<bar>v\<bar> < 2 ^ 1024 - 2 ^ 970"
  obtains x where "dollar (format_2f num) = Inr (''$'' @ float_format_2f (Finite x))"
    and "\<bar>x - v\<bar> \<le> \<bar>v\<bar> * exp2 (- 53)" and "x < 0 \<longleftrightarrow> v < 0"
proof (rule number_value_cases [OF nv])
  assume n: "num = PFloat (Finite v)"
  show ?thesis
    by (rule that [of v]) (simp_all add: n dollar_def)
next
  fix n assume n: "num = PInt n" "v = of_int n"
  show ?thesis
  proof (cases "n = 0")
    case True
    show ?thesis
      by (rule that [of 0])
        (simp_all add: n True dollar_def float_of_int_def round_double_def)
  next
    case False
    then have "1 \<le> \<bar>n\<bar>" by simp
    then have "(1::rat) \<le> \<bar>of_int n\<bar>" by (metis of_int_1_le_iff of_int_abs)
    then have "exp2 (- 1022) \<le> \<bar>v\<bar>" using exp2_m1022_le_1 n(2) by linarith
    moreover have "\<bar>v\<bar> < exp2 1024 - exp2 970" using lt by (simp only: exp2_threshold)
    ultimately obtain x where x: "round_double v = Finite x" "\<bar>x - v\<bar> \<le> \<bar>v\<bar> * exp2 (- 53)"
      "x < 0 \<longleftrightarrow> v < 0"
      using round_double_near [of v] by metis
    show ?thesis
      by (rule that [of x]) (simp_all add: n dollar_def float_of_int_def x [unfolded n])
  qed
qed

lemma format_large_number_numeric:
  assumes nv: "number_value num = Some v"
  shows "format_large_number num =
     (if 1000000000000 \<le> v then scaled num 1000000000000 ''T''
      else if 1000000000 \<le> v then scaled num 1000000000 ''B''
      else if 1000000 \<le> v then scaled num 1000000 ''M''
      else if 1000 \<le> v then scaled num 1000 ''K''
      else dollar (format_2f num))"
proof -
  have "num \<noteq> PNone" using nv by auto
  then show ?thesis
    by (simp add: format_large_number_def py_ge_value [OF nv])
qed

lemma largest_scale_cases:
  "1000 \<le> v \<Longrightarrow>
     (largest_scale v = 1000 \<or> largest_scale v = 1000000 \<or> largest_scale v = 1000000000
      \<or> largest_scale v = 1000000000000) \<and> of_int (largest_scale v) \<le> v"
  "\<not> 1000 \<le> v \<Longrightarrow> largest_scale v = 1 \<and> largest_suffix v = []"
  by (auto simp: largest_scale_def largest_suffix_def)

lemma format_large_number_branch:
  assumes "number_value num = Some v"
  shows "1000 \<le> v \<Longrightarrow>
           format_large_number num = scaled num (largest_scale v) (largest_suffix v)"
    and "\<not> 1000 \<le> v \<Longrightarrow> format_large_number num = dollar (format_2f num)"
  by (simp_all add: format_large_number_numeric [OF assms] largest_scale_def
      largest_suffix_def)

lemma format_large_number_body:
  assumes nv: "number_value num = Some v"
    and lt: "\<bar>v\<bar> / of_int (largest_scale v) < 2 ^ 1024 - 2 ^ 970"
  shows "\<exists>body. format_large_number num = Inr (''$'' @ body @ largest_suffix v)
           \<and> two_decimals (unsigned body) \<and> (minus_sign body \<longleftrightarrow> v < 0)
           \<and> \<bar>read_2f body - v / of_int (largest_scale v)\<bar>
                \<le> 1 / 200 + \<bar>v\<bar> / of_int (largest_scale v) / 2 ^ 53"
proof -
  define k where "k = largest_scale v"
  define sfx where "sfx = largest_suffix v"
  have "\<exists>x. format_large_number num = Inr (''$'' @ float_format_2f (Finite x) @ sfx)
          \<and> \<bar>x - v / of_int k\<bar> \<le> \<bar>v\<bar> / of_int k * exp2 (- 53) \<and> (x < 0 \<longleftrightarrow> v < 0)"
  proof (cases "1000 \<le> v")
    case True
    then have k: "k = 1000 \<or> k = 1000000 \<or> k = 1000000000 \<or> k = 1000000000000"
      and ge: "of_int k \<le> v"
      using largest_scale_cases(1) [OF True] by (simp_all add: k_def)
    have v: "0 < v" "\<bar>v\<bar> = v" using True by simp_all
    have lt': "v / of_int k < 2 ^ 1024 - 2 ^ 970"
      using lt by (simp only: v(2) k_def)
    have f: "format_large_number num = scaled num k sfx"
      using format_large_number_branch(1) [OF nv True] by (simp only: k_def sfx_def)
    obtain x where sx: "scaled num k sfx = Inr (''$'' @ float_format_2f (Finite x) @ sfx)"
      "\<bar>x - v / of_int k\<bar> \<le> v / of_int k * exp2 (- 53)" "0 < x"
      using scaled_wide [OF nv k ge lt'] by metis
    have "format_large_number num = Inr (''$'' @ float_format_2f (Finite x) @ sfx)"
      using f sx(1) by simp
    moreover have "\<bar>x - v / of_int k\<bar> \<le> \<bar>v\<bar> / of_int k * exp2 (- 53)"
      using sx(2) by (simp only: v(2))
    moreover have "x < 0 \<longleftrightarrow> v < 0"
      using sx(3) v(1) by linarith
    ultimately show ?thesis by blast
  next
    case False
    then have k: "k = 1" and s: "sfx = []"
      using largest_scale_cases(2) [OF False] by (simp_all add: k_def sfx_def)
    have lt': "\<bar>v\<bar> < 2 ^ 1024 - 2 ^ 970"
      using lt unfolding k_def [symmetric] k by simp
    have f: "format_large_number num = dollar (format_2f num)"
      using format_large_number_branch(2) [OF nv False] .
    obtain x where sx: "dollar (format_2f num) = Inr (''$'' @ float_format_2f (Finite x))"
      "\<bar>x - v\<bar> \<le> \<bar>v\<bar> * exp2 (- 53)" "x < 0 \<longleftrightarrow> v < 0"
      using plain_wide [OF nv lt'] by metis
    have "format_large_number num = Inr (''$'' @ float_format_2f (Finite x) @ sfx)"
      using f sx(1) s by simp
    moreover have "\<bar>x - v / of_int k\<bar> \<le> \<bar>v\<bar> / of_int k * exp2 (- 53)"
      using sx(2) k by simp
    ultimately show ?thesis using sx(3) by blast
  qed
  then obtain x where x: "format_large_number num = Inr (''$'' @ float_format_2f (Finite x) @ sfx)"
    "\<bar>x - v / of_int k\<bar> \<le> \<bar>v\<bar> / of_int k * exp2 (- 53)" "x < 0 \<longleftrightarrow> v < 0"
    by blast
  define body where "body = float_format_2f (Finite x)"
  have "\<bar>read_2f body - x\<bar> \<le> 1 / 200"
    unfolding body_def by (rule float_format_2f_finite)
  then have "\<bar>read_2f body - v / of_int k\<bar> \<le> 1 / 200 + \<bar>v\<bar> / of_int k * exp2 (- 53)"
    using x(2) by linarith
  then have "\<bar>read_2f body - v / of_int k\<bar> \<le> 1 / 200 + \<bar>v\<bar> / of_int k / 2 ^ 53"
    by (simp add: exp2_m53)
  moreover have "two_decimals (unsigned body)"
    unfolding body_def by (rule float_format_2f_finite)
  moreover have "minus_sign body \<longleftrightarrow> v < 0"
    using float_format_2f_finite(2) [of x] x(3) by (simp add: body_def)
  ultimately show ?thesis
    using x(1) unfolding body_def [symmetric] k_def sfx_def by blast
qed

lemma double_in_range:
  assumes "round_double q = Finite y"
  shows "\<bar>y\<bar> / of_int (largest_scale y) < 2 ^ 1024 - 2 ^ 970"
proof -
  have "(1::rat) \<le> of_int (largest_scale y)" by (simp add: largest_scale_def)
  then have "\<bar>y\<bar> / of_int (largest_scale y) \<le> \<bar>y\<bar>"
    by (simp add: pos_divide_le_eq mult_le_cancel_left1)
  moreover have "\<bar>y\<bar> < 2 ^ 1024 - 2 ^ 970"
    using round_double_range [OF assms] by (simp only: exp2_threshold)
  ultimately show ?thesis by linarith
qed

lemma format_large_number_int_overflow:
  "format_large_number (PInt n) = Inl OverflowError
     \<longleftrightarrow> 2 ^ 1024 - 2 ^ 970 \<le> \<bar>of_int n :: rat\<bar> / of_int (largest_scale (of_int n))"
proof -
  have nv: "number_value (PInt n) = Some (of_int n)" by simp
  define k where "k = largest_scale (of_int n)"
  show ?thesis
  proof (cases "(1000::rat) \<le> of_int n")
    case True
    then have k: "k = 1000 \<or> k = 1000000 \<or> k = 1000000000 \<or> k = 1000000000000"
      using largest_scale_cases(1) [OF True] by (simp_all add: k_def)
    then have kpos: "0 < k" by auto
    have n0: "n \<noteq> 0" using True by auto
    have "format_large_number (PInt n) = scaled (PInt n) k (largest_suffix (of_int n))"
      using format_large_number_branch(1) [OF nv True] by (simp only: k_def)
    then have "format_large_number (PInt n) = Inl OverflowError
                 \<longleftrightarrow> is_inf (round_double (of_int n / of_int k))"
      using kpos n0 by (simp add: scaled_def py_truediv_def int_truediv_def Let_def)
    also have "\<dots> \<longleftrightarrow> exp2 1024 - exp2 970 \<le> \<bar>of_int n / of_int k :: rat\<bar>"
      by (rule round_double_inf_iff)
    also have "\<bar>of_int n / of_int k :: rat\<bar> = \<bar>of_int n\<bar> / of_int k"
      using kpos by (simp add: abs_divide del: of_int_abs)
    finally show ?thesis by (simp only: exp2_threshold k_def)
  next
    case False
    have k: "k = 1" using largest_scale_cases(2) [OF False] by (simp add: k_def)
    have "format_large_number (PInt n) = dollar (format_2f (PInt n))"
      using format_large_number_branch(2) [OF nv False] .
    then have "format_large_number (PInt n) = Inl OverflowError
                 \<longleftrightarrow> is_inf (round_double (of_int n))"
      by (simp add: dollar_def float_of_int_def Let_def)
    also have "\<dots> \<longleftrightarrow> exp2 1024 - exp2 970 \<le> \<bar>of_int n :: rat\<bar>"
      by (rule round_double_inf_iff)
    also have "\<bar>of_int n :: rat\<bar> = \<bar>of_int n\<bar> / of_int k"
      by (simp add: k)
    finally show ?thesis by (simp only: exp2_threshold k_def)
  qed
qed

text \<open>
  Claim C4, as amended. \<^verbatim>\<open>format_large_number\<close> returns \<^verbatim>\<open>"N/A"\<close> for \<^verbatim>\<open>None\<close> and
  \<^verbatim>\<open>"$-0.00"\<close> for the float \<^verbatim>\<open>-0.0\<close>. For every integer or finite float whose magnitude
  divided by the scale of its suffix is below \<open>2\<^sup>1\<^sup>0\<^sup>2\<^sup>4 - 2\<^sup>9\<^sup>7\<^sup>0\<close> it returns a dollar
  sign, a body and the largest applicable suffix among T, B, M and K (none below
  1000), where the body has two decimals, carries a minus sign exactly for negative
  values, and denotes the input divided by the scale of the suffix, up to half a
  hundredth and the relative rounding error \<open>2\<^sup>-\<^sup>5\<^sup>3\<close> of the float division. Every
  finite double, that is every finite value of the rounding, is in that range; and the
  range is exact for the integers: an integer outside it raises \<^verbatim>\<open>OverflowError\<close>, and
  no other integer does.
\<close>

theorem format_large_number_representable:
  "format_large_number PNone = Inr ''N/A''
   \<and> format_large_number (PFloat NegZero) = Inr ''$-0.00''
   \<and> (number_value num = Some v \<and> \<bar>v\<bar> / of_int (largest_scale v) < 2 ^ 1024 - 2 ^ 970 \<longrightarrow>
        (\<exists>body. format_large_number num = Inr (''$'' @ body @ largest_suffix v)
           \<and> two_decimals (unsigned body) \<and> (minus_sign body \<longleftrightarrow> v < 0)
           \<and> \<bar>read_2f body - v / of_int (largest_scale v)\<bar>
                \<le> 1 / 200 + \<bar>v\<bar> / of_int (largest_scale v) / 2 ^ 53))
   \<and> (round_double q = Finite y \<longrightarrow>
        \<bar>y\<bar> / of_int (largest_scale y) < 2 ^ 1024 - 2 ^ 970)
   \<and> (format_large_number (PInt n) = Inl OverflowError
        \<longleftrightarrow> 2 ^ 1024 - 2 ^ 970 \<le> \<bar>of_int n :: rat\<bar> / of_int (largest_scale (of_int n)))"
proof (intro conjI impI)
  show "format_large_number PNone = Inr ''N/A''"
    by (simp add: format_large_number_def)
  show "format_large_number (PFloat NegZero) = Inr ''$-0.00''"
    by (simp add: format_large_number_def dollar_def)
  show "format_large_number (PInt n) = Inl OverflowError
        \<longleftrightarrow> 2 ^ 1024 - 2 ^ 970 \<le> \<bar>of_int n :: rat\<bar> / of_int (largest_scale (of_int n))"
    by (rule format_large_number_int_overflow)
next
  assume "round_double q = Finite y"
  then show "\<bar>y\<bar> / of_int (largest_scale y) < 2 ^ 1024 - 2 ^ 970"
    by (rule double_in_range)
next
  assume "number_value num = Some v \<and> \<bar>v\<bar> / of_int (largest_scale v) < 2 ^ 1024 - 2 ^ 970"
  then have nv: "number_value num = Some v"
    and lt: "\<bar>v\<bar> / of_int (largest_scale v) < 2 ^ 1024 - 2 ^ 970" by blast+
  show "\<exists>body. format_large_number num = Inr (''$'' @ body @ largest_suffix v)
           \<and> two_decimals (unsigned body) \<and> (minus_sign body \<longleftrightarrow> v < 0)
           \<and> \<bar>read_2f body - v / of_int (largest_scale v)\<bar>
                \<le> 1 / 200 + \<bar>v\<bar> / of_int (largest_scale v) / 2 ^ 53"
    using nv lt by (rule format_large_number_body)
qed

theorem format_large_number_representable_witness:
  "number_value (PInt 2500000000) = Some 2500000000
   \<and> \<bar>2500000000 :: rat\<bar> / of_int (largest_scale 2500000000) < 2 ^ 1024 - 2 ^ 970
   \<and> (\<exists>body. format_large_number (PInt 2500000000)
                  = Inr (''$'' @ body @ largest_suffix 2500000000)
          \<and> two_decimals (unsigned body)
          \<and> \<bar>read_2f body - 2500000000 / of_int (largest_scale 2500000000)\<bar>
               \<le> 1 / 200 + \<bar>2500000000\<bar> / of_int (largest_scale 2500000000) / 2 ^ 53)
   \<and> round_double (5 / 2) = Finite (5 / 2)
   \<and> \<bar>5 / 2 :: rat\<bar> / of_int (largest_scale (5 / 2)) < 2 ^ 1024 - 2 ^ 970
   \<and> format_large_number (PInt 2500000000) = Inr ''$2.50B''
   \<and> format_large_number (PInt 999) = Inr ''$999.00''
   \<and> format_large_number (PFloat (Finite (5 / 2))) = Inr ''$2.50''
   \<and> format_large_number PNone = Inr ''N/A''"
proof -
  have 0: "number_value (PInt 2500000000) = Some 2500000000" by simp
  have 1: "\<bar>2500000000 :: rat\<bar> / of_int (largest_scale 2500000000) < 2 ^ 1024 - 2 ^ 970"
    by (simp add: largest_scale_def)
  have 2: "format_large_number (PInt 2500000000) = Inr ''$2.50B''" by code_simp
  have 3: "format_large_number (PInt 999) = Inr ''$999.00''" by code_simp
  have 4: "round_double (5 / 2) = Finite (5 / 2)" by code_simp
  have 5: "format_large_number (PFloat (Finite (5 / 2))) = Inr ''$2.50''" by code_simp
  note t = format_large_number_representable [of "PInt 2500000000" 2500000000 "5 / 2" "5 / 2" 0]
  have 6: "\<exists>body. format_large_number (PInt 2500000000)
                  = Inr (''$'' @ body @ largest_suffix 2500000000)
          \<and> two_decimals (unsigned body)
          \<and> \<bar>read_2f body - 2500000000 / of_int (largest_scale 2500000000)\<bar>
               \<le> 1 / 200 + \<bar>2500000000\<bar> / of_int (largest_scale 2500000000) / 2 ^ 53"
    using t 0 1 by blast
  have 7: "\<bar>5 / 2 :: rat\<bar> / of_int (largest_scale (5 / 2)) < 2 ^ 1024 - 2 ^ 970"
    using t 4 by blast
  have 8: "format_large_number PNone = Inr ''N/A''"
    using t by blast
  show ?thesis
    using 0 1 2 3 4 5 6 7 8 by blast
qed

text \<open>The two smallest magnitudes at which an integer raises.\<close>

lemma format_large_number_threshold:
  "format_large_number (PInt (10 ^ 12 * (2 ^ 1024 - 2 ^ 970))) = Inl OverflowError
   \<and> format_large_number (PInt (- (2 ^ 1024 - 2 ^ 970))) = Inl OverflowError"
proof
  show "format_large_number (PInt (10 ^ 12 * (2 ^ 1024 - 2 ^ 970))) = Inl OverflowError"
    unfolding format_large_number_int_overflow by (simp add: largest_scale_def)
  show "format_large_number (PInt (- (2 ^ 1024 - 2 ^ 970))) = Inl OverflowError"
    unfolding format_large_number_int_overflow by (simp add: largest_scale_def)
qed

text \<open>
  The claim as stated fails for numbers outside that range: the integer \<open>10\<^sup>4\<^sup>0\<^sup>0\<close> makes
  the division raise \<^verbatim>\<open>OverflowError\<close>, and the float infinity prints as
  \<^verbatim>\<open>"$infT"\<close>, without decimals.
\<close>

theorem format_large_number_overflow:
  "format_large_number (PInt (10 ^ 400)) = Inl OverflowError
   \<and> format_large_number (PFloat PInf) = Inr ''$infT''"
proof
  have "exp2 1024 \<le> \<bar>of_int (10 ^ 400) / of_int 1000000000000\<bar>"
    by (simp add: exp2_1024)
  then have "is_inf (round_double (of_int (10 ^ 400) / of_int 1000000000000))"
    by (rule round_double_overflow)
  then have "int_truediv (10 ^ 400) 1000000000000 = Inl OverflowError"
    by (simp add: int_truediv_def)
  then show "format_large_number (PInt (10 ^ 400)) = Inl OverflowError"
    by (simp add: format_large_number_def scaled_def py_truediv_def)
  show "format_large_number (PFloat PInf) = Inr ''$infT''"
    by code_simp
qed

text \<open>
  Claim C10. Every negative number takes the plain-currency branch, whatever its
  magnitude: the result is that of \<^verbatim>\<open>f"${num:.2f}"\<close>, and when it is a string it
  starts with \<^verbatim>\<open>$-\<close> and does not end in K, M, B or T.
\<close>

theorem negative_plain_currency:
  assumes "is_negative num"
  shows "format_large_number num = dollar (format_2f num)
       \<and> (\<forall>s. format_large_number num = Inr s \<longrightarrow> take 2 s = ''$-'' \<and> last s \<notin> set ''KMBT'')"
proof -
  have ge: "py_ge num k = Inr False" if "0 < k" for k
    using assms that by (cases num rule: is_negative.cases) auto
  have ne: "num \<noteq> PNone" using assms by auto
  have f: "format_large_number num = dollar (format_2f num)"
    by (simp add: format_large_number_def ge ne)
  have "\<exists>x. format_2f num = Inr (float_format_2f x) \<and> sign_bit x" if "format_2f num = Inr t" for t
  proof (cases num rule: is_negative.cases)
    case (1 n)
    then have "n < 0" using assms by simp
    then have "sign_bit (round_double (of_int n))" by (simp add: sign_bit_round_double)
    then show ?thesis
      using that by (auto simp: 1 float_of_int_def Let_def split: if_splits)
  next
    case (2 q)
    then show ?thesis using assms by (intro exI [of _ "Finite q"]) simp
  next
    case 3
    then show ?thesis by (intro exI [of _ NInf]) simp
  qed (use assms in simp_all)
  then have "take 2 s = ''$-'' \<and> last s \<notin> set ''KMBT''" if "format_large_number num = Inr s" for s
  proof -
    have "\<exists>t. format_2f num = Inr t \<and> s = ''$'' @ t"
      using that f by (cases "format_2f num") (auto simp: dollar_def)
    then obtain t where t: "format_2f num = Inr t" "s = ''$'' @ t" by blast
    then obtain x where x: "t = float_format_2f x" "sign_bit x"
      using \<open>\<And>t. format_2f num = Inr t \<Longrightarrow> \<exists>x. format_2f num = Inr (float_format_2f x) \<and> sign_bit x\<close>
      by fastforce
    have "minus_sign t" using x float_format_2f_sign by simp
    then have "take 1 t = ''-''" by (simp add: minus_sign_def)
    then have "take 2 s = ''$-''" by (cases t) (simp_all add: t(2))
    moreover have "last s \<notin> set ''KMBT''"
      using float_format_2f_last [of x] float_format_2f_nonempty [of x] by (simp add: t(2) x(1))
    ultimately show ?thesis by simp
  qed
  then show ?thesis using f by blast
qed

theorem negative_plain_currency_witness:
  "is_negative (PInt (- 2000000000))
   \<and> format_large_number (PInt (- 2000000000)) = Inr ''$-2000000000.00''
   \<and> format_large_number (PInt (- 2000000000)) = dollar (format_2f (PInt (- 2000000000)))"
proof -
  have 1: "is_negative (PInt (- 2000000000))" by simp
  have 2: "format_large_number (PInt (- 2000000000)) = Inr ''$-2000000000.00''" by code_simp
  show ?thesis
    using negative_plain_currency [OF 1] 1 2 by simp
qed

section \<open>The percent change of the current price\<close>

text \<open>
  Prices of an ordinary magnitude give a finite quotient, and from a finite quotient
  the subtraction and the multiplication by 100 stay finite.
\<close>

lemma round_double_finite:
  assumes "\<bar>q\<bar> < exp2 1023"
  shows "is_finite (round_double q)" and "\<bar>rat_of_float (round_double q)\<bar> \<le> 2 * \<bar>q\<bar> + 1"
proof -
  have "is_finite (round_double q) \<and> \<bar>rat_of_float (round_double q)\<bar> \<le> 2 * \<bar>q\<bar> + 1"
  proof (cases "q = 0")
    case True
    then show ?thesis by (simp add: round_double_def)
  next
    case q0: False
    then have a: "0 < \<bar>q\<bar>" by simp
    obtain e m where e: "e = max (ilog2 \<bar>q\<bar> - 52) (- 1074)" and m0: "0 \<le> m"
      and err: "\<bar>of_int m * exp2 e - \<bar>q\<bar>\<bar> \<le> exp2 e / 2"
      and r: "round_double q =
           (if exp2 1024 \<le> of_int m * exp2 e then (if q < 0 then NInf else PInf)
            else if m = 0 then (if q < 0 then NegZero else Finite 0)
            else Finite (if q < 0 then - (of_int m * exp2 e) else of_int m * exp2 e))"
      using round_double_unfold [OF q0] by metis
    define v where "v = of_int m * exp2 e"
    have "\<not> is_inf (round_double q)" using assms by (rule round_double_no_overflow)
    then have noov: "\<not> exp2 1024 \<le> v" using r by (auto simp: v_def split: if_splits)
    have v0: "0 \<le> v" using m0 by (simp add: v_def)
    have "exp2 e \<le> \<bar>q\<bar> + 1"
    proof (cases "- 1074 \<le> ilog2 \<bar>q\<bar> - 52")
      case True
      then have "exp2 e \<le> exp2 (ilog2 \<bar>q\<bar>)" using e by (intro exp2_mono) simp
      moreover have "exp2 (ilog2 \<bar>q\<bar>) \<le> \<bar>q\<bar>" using a by (rule ilog2_bounds)
      ultimately show ?thesis by linarith
    next
      case False
      then have "exp2 e = exp2 (- 1074)" using e by simp
      moreover have "exp2 (- 1074) \<le> exp2 0" by (intro exp2_mono) simp
      moreover have "exp2 0 = 1" by (simp add: exp2_eq)
      ultimately show ?thesis using a by linarith
    qed
    moreover have "\<bar>v - \<bar>q\<bar>\<bar> \<le> exp2 e / 2" using err by (simp add: v_def)
    ultimately have vb: "v \<le> 2 * \<bar>q\<bar> + 1" using a by linarith
    show ?thesis
      using noov v0 vb a by (auto simp: r v_def [symmetric])
  qed
  then show "is_finite (round_double q)"
    and "\<bar>rat_of_float (round_double q)\<bar> \<le> 2 * \<bar>q\<bar> + 1" by simp_all
qed

lemma exp2_ge_numeral: "(2::rat) ^ 700 < exp2 1023"
  by (simp add: exp2_1023)

lemma round_double_finite_700:
  assumes "\<bar>q\<bar> \<le> 2 ^ 700"
  shows "is_finite (round_double q)" and "\<bar>rat_of_float (round_double q)\<bar> \<le> 2 * \<bar>q\<bar> + 1"
  using round_double_finite [of q] assms exp2_ge_numeral by simp_all

lemma round_double_int_nonzero:
  assumes "n \<noteq> 0" and "\<bar>of_int n :: rat\<bar> \<le> 2 ^ 300"
  obtains y where "round_double (of_int n) = Finite y" and "1 / 2 \<le> \<bar>y\<bar>" and "\<bar>y\<bar> \<le> 2 ^ 301 + 1"
proof -
  have "1 \<le> \<bar>n\<bar>" using assms(1) by simp
  then have one: "(1::rat) \<le> \<bar>of_int n\<bar>" by (metis of_int_1_le_iff of_int_abs)
  then have "exp2 (- 1022) \<le> \<bar>of_int n :: rat\<bar>" using exp2_m1022_le_1 by linarith
  moreover have lt: "\<bar>of_int n :: rat\<bar> < exp2 1023"
    using assms(2) exp2_ge_numeral by (simp add: exp2_1023)
  ultimately obtain y where y: "round_double (of_int n) = Finite y"
    "\<bar>y - of_int n\<bar> \<le> \<bar>of_int n\<bar> * exp2 (- 53)"
    using round_double_normal [of "of_int n"] by metis
  have "exp2 (- 53) \<le> 1 / 2" by (simp add: exp2_m53)
  then have "\<bar>of_int n :: rat\<bar> * exp2 (- 53) \<le> \<bar>of_int n\<bar> * (1 / 2)"
    by (intro mult_left_mono) simp_all
  then have "\<bar>y - of_int n\<bar> \<le> \<bar>of_int n\<bar> / 2" using y(2) by simp
  then have lo: "1 / 2 \<le> \<bar>y\<bar>" using one by linarith
  have "\<bar>y\<bar> \<le> 2 * \<bar>of_int n\<bar> + 1"
    using round_double_finite(2) [OF lt] y(1) by simp
  then have hi: "\<bar>y\<bar> \<le> 2 ^ 301 + 1" using assms(2) by simp
  show ?thesis using that [OF y(1) lo hi] .
qed

lemma float_div_finite:
  assumes "y \<noteq> 0" and "\<bar>x\<bar> \<le> 2 ^ 301 + 1" and "1 / 2 ^ 300 \<le> \<bar>y\<bar>"
  obtains r where "float_div (Finite x) (Finite y) = Inr r" and "is_finite r"
    and "\<bar>rat_of_float r\<bar> \<le> 2 ^ 604"
proof (cases "x = 0")
  case True
  show ?thesis
    by (rule that [of "signed_zero (sign_bit (Finite x) \<noteq> sign_bit (Finite y))"])
      (use assms(1) True in \<open>auto simp: float_div_def is_zero_def signed_zero_def\<close>)
next
  case False
  have ypos: "0 < \<bar>y\<bar>" using assms(1) by simp
  have "\<bar>x / y\<bar> = \<bar>x\<bar> / \<bar>y\<bar>" by (simp add: abs_divide)
  also have "\<dots> \<le> (2 ^ 301 + 1) / \<bar>y\<bar>"
    using assms(2) ypos by (simp add: divide_right_mono)
  also have "\<dots> \<le> (2 ^ 301 + 1) * 2 ^ 300"
  proof -
    have "1 / \<bar>y\<bar> \<le> 2 ^ 300"
      using assms(3) ypos by (simp add: field_simps)
    then have "(2 ^ 301 + 1) * (1 / \<bar>y\<bar>) \<le> (2 ^ 301 + 1) * 2 ^ 300"
      by (intro mult_left_mono) simp_all
    then show ?thesis by simp
  qed
  finally have b: "\<bar>x / y\<bar> \<le> (2 ^ 301 + 1) * 2 ^ 300" .
  then have b700: "\<bar>x / y\<bar> \<le> 2 ^ 700" by simp
  have r: "float_div (Finite x) (Finite y) = Inr (round_double (x / y))"
    using assms(1) False by (simp add: float_div_def is_zero_def)
  have "\<bar>rat_of_float (round_double (x / y))\<bar> \<le> 2 * \<bar>x / y\<bar> + 1"
    by (rule round_double_finite_700 [OF b700])
  then have "\<bar>rat_of_float (round_double (x / y))\<bar> \<le> 2 ^ 604" using b by simp
  then show ?thesis
    using that [OF r round_double_finite_700(1) [OF b700]] by simp
qed

lemma is_finite_simps:
  "is_finite x \<Longrightarrow> x \<noteq> NaN" "is_finite x \<Longrightarrow> \<not> is_inf x" "is_finite (signed_zero b)"
  by (cases x; simp)+ (simp add: signed_zero_def)

lemma float_of_int_finite:
  assumes "\<bar>of_int n :: rat\<bar> \<le> 2 ^ 300"
  obtains x where "float_of_int n = Inr (Finite x)" and "\<bar>x\<bar> \<le> 2 ^ 301 + 1"
    and "n \<noteq> 0 \<longrightarrow> 1 / 2 \<le> \<bar>x\<bar>"
proof (cases "n = 0")
  case True
  show ?thesis
    by (rule that [of 0]) (simp_all add: True float_of_int_def round_double_def)
next
  case False
  obtain y where y: "round_double (of_int n) = Finite y" "1 / 2 \<le> \<bar>y\<bar>" "\<bar>y\<bar> \<le> 2 ^ 301 + 1"
    using round_double_int_nonzero [OF False assms] by metis
  have "float_of_int n = Inr (Finite y)"
    by (simp add: float_of_int_def y(1))
  then show ?thesis using that [of y] y(2,3) by blast
qed

lemma py_truediv_finite:
  assumes a: "number_value a = Some c" and b: "number_value b = Some p" and p0: "p \<noteq> 0"
    and c: "\<bar>c\<bar> \<le> 2 ^ 300" and plo: "1 / 2 ^ 300 \<le> \<bar>p\<bar>" and phi: "\<bar>p\<bar> \<le> 2 ^ 300"
  obtains r where "py_truediv a b = Inr r" and "is_finite r" and "\<bar>rat_of_float r\<bar> \<le> 2 ^ 604"
proof (rule number_value_cases [OF a]; rule number_value_cases [OF b])
  fix m n assume m: "a = PInt m" "c = of_int m" and n: "b = PInt n" "p = of_int n"
  have n0: "n \<noteq> 0" using p0 n by auto
  show ?thesis
  proof (cases "m = 0")
    case True
    show ?thesis
      by (rule that [of "signed_zero (n < 0)"])
        (simp_all add: m n True n0 py_truediv_def int_truediv_def signed_zero_def)
  next
    case False
    have "1 \<le> \<bar>n\<bar>" using n0 by simp
    then have "(1::rat) \<le> \<bar>of_int n\<bar>" by (metis of_int_1_le_iff of_int_abs)
    then have "\<bar>of_int m / of_int n :: rat\<bar> \<le> \<bar>of_int m\<bar>"
      by (simp add: abs_divide divide_le_eq_1 mult_le_cancel_left1 field_simps)
    then have q: "\<bar>of_int m / of_int n :: rat\<bar> \<le> 2 ^ 300" using c m by linarith
    then have q700: "\<bar>of_int m / of_int n :: rat\<bar> \<le> 2 ^ 700" by simp
    note f = round_double_finite_700 [OF q700]
    have "py_truediv a b = Inr (round_double (of_int m / of_int n))"
      using False n0 is_finite_simps(2) [OF f(1)]
      by (simp add: m n py_truediv_def int_truediv_def)
    moreover have "\<bar>rat_of_float (round_double (of_int m / of_int n))\<bar> \<le> 2 ^ 604"
      using f(2) q by simp
    ultimately show ?thesis using that f(1) by blast
  qed
next
  fix m assume m: "a = PInt m" "c = of_int m" and n: "b = PFloat (Finite p)"
  obtain x where x: "float_of_int m = Inr (Finite x)" "\<bar>x\<bar> \<le> 2 ^ 301 + 1"
    using float_of_int_finite [of m] c m by metis
  obtain r where r: "float_div (Finite x) (Finite p) = Inr r" "is_finite r"
    "\<bar>rat_of_float r\<bar> \<le> 2 ^ 604"
    using float_div_finite [OF p0 x(2) plo] by metis
  have "py_truediv a b = Inr r"
    by (simp add: m n py_truediv_def x(1) r(1))
  then show ?thesis using that r by blast
next
  fix n assume m: "a = PFloat (Finite c)" and n: "b = PInt n" "p = of_int n"
  have n0: "n \<noteq> 0" using p0 n by auto
  obtain y where y: "float_of_int n = Inr (Finite y)" "1 / 2 \<le> \<bar>y\<bar>"
    using float_of_int_finite [of n] phi n n0 by metis
  have y0: "y \<noteq> 0" using y(2) by auto
  have ylo: "1 / 2 ^ 300 \<le> \<bar>y\<bar>" using y(2) by simp
  have cb: "\<bar>c\<bar> \<le> 2 ^ 301 + 1" using c by simp
  obtain r where r: "float_div (Finite c) (Finite y) = Inr r" "is_finite r"
    "\<bar>rat_of_float r\<bar> \<le> 2 ^ 604"
    using float_div_finite [OF y0 cb ylo] by metis
  have "py_truediv a b = Inr r"
    by (simp add: m n py_truediv_def y(1) r(1))
  then show ?thesis using that r by blast
next
  assume m: "a = PFloat (Finite c)" and n: "b = PFloat (Finite p)"
  have cb: "\<bar>c\<bar> \<le> 2 ^ 301 + 1" using c by simp
  obtain r where r: "float_div (Finite c) (Finite p) = Inr r" "is_finite r"
    "\<bar>rat_of_float r\<bar> \<le> 2 ^ 604"
    using float_div_finite [OF p0 cb plo] by metis
  have "py_truediv a b = Inr r"
    by (simp add: m n py_truediv_def r(1))
  then show ?thesis using that r by blast
qed

lemma double_bound:
  fixes a b k :: rat
  shows "a \<le> 2 * b + 1 \<Longrightarrow> b \<le> k \<Longrightarrow> a \<le> 2 * k + 1"
  by linarith

lemma percent_finish:
  assumes "is_finite r" and "\<bar>rat_of_float r\<bar> \<le> 2 ^ 604"
  shows "is_finite (float_mul (float_sub r (Finite 1)) (Finite 100))"
proof -
  define s where "s = round_double (rat_of_float r - 1)"
  have "\<bar>rat_of_float r - 1\<bar> \<le> 2 ^ 604 + 1" using assms(2) by linarith
  then have b1: "\<bar>rat_of_float r - 1\<bar> \<le> 2 ^ 700" by simp
  have sf: "is_finite s" and sb: "\<bar>rat_of_float s\<bar> \<le> 2 * \<bar>rat_of_float r - 1\<bar> + 1"
    unfolding s_def by (rule round_double_finite_700 [OF b1])+
  have sub: "float_sub r (Finite 1) = s"
    using is_finite_simps(1,2) [OF assms(1)] by (simp add: float_sub_def is_zero_def s_def)
  have "\<bar>rat_of_float s\<bar> \<le> 2 * (2 ^ 604 + 1) + 1"
    using sb \<open>\<bar>rat_of_float r - 1\<bar> \<le> 2 ^ 604 + 1\<close> by (rule double_bound)
  then have "\<bar>rat_of_float s * 100\<bar> \<le> (2 * (2 ^ 604 + 1) + 1) * 100"
    by (simp add: abs_mult)
  then have b2: "\<bar>rat_of_float s * 100\<bar> \<le> 2 ^ 700" by simp
  have "is_finite (float_mul s (Finite 100))"
    using is_finite_simps(1,2) [OF sf] is_finite_simps(3) round_double_finite_700(1) [OF b2]
    by (simp add: float_mul_def)
  then show ?thesis by (simp add: sub)
qed

lemma percent_change_finite:
  assumes "number_value a = Some c" and "number_value b = Some p" and "p \<noteq> 0"
    and "\<bar>c\<bar> \<le> 2 ^ 300" and "1 / 2 ^ 300 \<le> \<bar>p\<bar>" and "\<bar>p\<bar> \<le> 2 ^ 300"
  shows "\<exists>x. percent_change a b = Inr x \<and> is_finite x"
proof -
  obtain r where r: "py_truediv a b = Inr r" "is_finite r" "\<bar>rat_of_float r\<bar> \<le> 2 ^ 604"
    using py_truediv_finite [OF assms] by metis
  show ?thesis
    using percent_finish [OF r(2,3)] by (simp add: percent_change_def r(1))
qed

lemma sample_percent_change:
  "percent_change (PInt 101) (PInt 100) = Inr (Finite (1125899906842625 / 1125899906842624))"
  by code_simp

text \<open>
  Claim C8, as amended. Let the previous close be present. If both prices are numbers,
  the current one of magnitude at most \<open>2 ^ 300\<close> and the previous one non-zero of
  magnitude between \<open>1 / 2 ^ 300\<close> and \<open>2 ^ 300\<close>, the percent change is computed and is
  a finite float. Whenever the percent change is a finite float, the delta is a string
  with two decimals followed by a percent sign: it starts with a minus sign exactly
  when the change has its sign bit set, it never contains a plus sign, and it denotes
  the change up to half a hundredth.
\<close>

theorem percent_delta_format:
  assumes "info_has info ''previousClose''"
  shows "(number_value current_price = Some c
            \<and> number_value (info_get info ''previousClose'' current_price) = Some p
            \<and> p \<noteq> 0 \<and> \<bar>c\<bar> \<le> 2 ^ 300 \<and> 1 / 2 ^ 300 \<le> \<bar>p\<bar> \<and> \<bar>p\<bar> \<le> 2 ^ 300
          \<longrightarrow> (\<exists>x. percent_change current_price (info_get info ''previousClose'' current_price)
                       = Inr x \<and> is_finite x))
       \<and> (percent_change current_price (info_get info ''previousClose'' current_price) = Inr x
            \<and> is_finite x
          \<longrightarrow> (\<exists>s. price_delta info current_price = Inr (Some [Lit (s @ ''%'')])
                 \<and> two_decimals (unsigned s) \<and> (minus_sign s \<longleftrightarrow> sign_bit x)
                 \<and> CHR ''+'' \<notin> set s \<and> \<bar>read_2f s - rat_of_float x\<bar> \<le> 1 / 200))"
proof (intro conjI impI)
  assume "number_value current_price = Some c
            \<and> number_value (info_get info ''previousClose'' current_price) = Some p
            \<and> p \<noteq> 0 \<and> \<bar>c\<bar> \<le> 2 ^ 300 \<and> 1 / 2 ^ 300 \<le> \<bar>p\<bar> \<and> \<bar>p\<bar> \<le> 2 ^ 300"
  then show "\<exists>x. percent_change current_price (info_get info ''previousClose'' current_price)
                       = Inr x \<and> is_finite x"
    by (elim conjE) (rule percent_change_finite)
next
  assume h: "percent_change current_price (info_get info ''previousClose'' current_price) = Inr x
            \<and> is_finite x"
  then have "price_delta info current_price = Inr (Some [Lit (float_format_2f x @ ''%'')])"
    using assms by (simp add: price_delta_def)
  then show "\<exists>s. price_delta info current_price = Inr (Some [Lit (s @ ''%'')])
                 \<and> two_decimals (unsigned s) \<and> (minus_sign s \<longleftrightarrow> sign_bit x)
                 \<and> CHR ''+'' \<notin> set s \<and> \<bar>read_2f s - rat_of_float x\<bar> \<le> 1 / 200"
    using float_format_2f_is_finite [of x] h by blast
qed

theorem percent_delta_format_witness:
  "info_has (price_info (PInt 101) (PInt 100)) ''previousClose''
   \<and> number_value (PInt 101) = Some 101
   \<and> number_value (info_get (price_info (PInt 101) (PInt 100)) ''previousClose'' (PInt 101)) = Some 100
   \<and> (100::rat) \<noteq> 0 \<and> \<bar>101::rat\<bar> \<le> 2 ^ 300 \<and> 1 / 2 ^ 300 \<le> \<bar>100::rat\<bar> \<and> \<bar>100::rat\<bar> \<le> 2 ^ 300
   \<and> percent_change (PInt 101) (info_get (price_info (PInt 101) (PInt 100)) ''previousClose'' (PInt 101))
       = Inr (Finite (1125899906842625 / 1125899906842624))
   \<and> is_finite (Finite (1125899906842625 / 1125899906842624))
   \<and> (\<exists>s. price_delta (price_info (PInt 101) (PInt 100)) (PInt 101) = Inr (Some [Lit (s @ ''%'')])
           \<and> two_decimals (unsigned s) \<and> CHR ''+'' \<notin> set s)
   \<and> price_delta (price_info (PInt 101) (PInt 100)) (PInt 101) = Inr (Some [Lit ''1.00%''])
   \<and> price_delta (price_info (PInt 99) (PInt 100)) (PInt 99) = Inr (Some [Lit ''-1.00%''])"
proof -
  have 1: "info_has (price_info (PInt 101) (PInt 100)) ''previousClose''"
    by (simp add: info_has_def price_info_def)
  have g: "info_get (price_info (PInt 101) (PInt 100)) ''previousClose'' (PInt 101) = PInt 100"
    by (simp add: info_get_def price_info_def)
  have 2: "percent_change (PInt 101) (info_get (price_info (PInt 101) (PInt 100)) ''previousClose'' (PInt 101))
       = Inr (Finite (1125899906842625 / 1125899906842624))"
    using sample_percent_change by (simp add: g)
  have 3: "is_finite (Finite (1125899906842625 / 1125899906842624))" by simp
  have 4: "price_delta (price_info (PInt 101) (PInt 100)) (PInt 101) = Inr (Some [Lit ''1.00%''])"
    by code_simp
  have 5: "price_delta (price_info (PInt 99) (PInt 100)) (PInt 99) = Inr (Some [Lit ''-1.00%''])"
    by code_simp
  have 6: "\<exists>s. price_delta (price_info (PInt 101) (PInt 100)) (PInt 101) = Inr (Some [Lit (s @ ''%'')])
           \<and> two_decimals (unsigned s) \<and> CHR ''+'' \<notin> set s"
    using percent_delta_format [OF 1, of "PInt 101" 101 100 "Finite (1125899906842625 / 1125899906842624)"] 2 3
    by blast
  have 7: "number_value (PInt 101) = Some 101
   \<and> number_value (info_get (price_info (PInt 101) (PInt 100)) ''previousClose'' (PInt 101)) = Some 100
   \<and> (100::rat) \<noteq> 0 \<and> \<bar>101::rat\<bar> \<le> 2 ^ 300 \<and> 1 / 2 ^ 300 \<le> \<bar>100::rat\<bar> \<and> \<bar>100::rat\<bar> \<le> 2 ^ 300"
    by (simp add: g)
  show ?thesis
    using 1 2 3 4 5 6 7 by blast
qed

text \<open>
  The claim as stated fails: for the prices 101 and 100 the delta is \<^verbatim>\<open>"1.00%"\<close>, not
  \<^verbatim>\<open>"+1.00%"\<close>.
\<close>

theorem percent_delta_has_no_plus:
  "price_delta (price_info (PInt 101) (PInt 100)) (PInt 101) = Inr (Some [Lit ''1.00%''])
   \<and> price_delta (price_info (PInt 101) (PInt 100)) (PInt 101) \<noteq> Inr (Some [Lit ''+1.00%''])
   \<and> price_delta (price_info (PFloat (Finite 101)) (PFloat (Finite 100))) (PFloat (Finite 101))
        = Inr (Some [Lit ''1.00%''])"
  by code_simp

text \<open>
  Claim C1. The delta is omitted when the previous close is absent, but a previous
  close of zero is not guarded: the division of line 136 raises
  \<^verbatim>\<open>ZeroDivisionError\<close>, which nothing catches, so the metric is not drawn and the run
  of the script ends with that exception.
\<close>

theorem zero_previous_close_raises:
  "price_delta (price_info (PInt 100) (PInt 0)) (PInt 100) = Inl ZeroDivisionError
   \<and> price_delta (price_info (PFloat (Finite 100)) (PFloat (Finite 0))) (PFloat (Finite 100))
        = Inl ZeroDivisionError
   \<and> current_price_metric (price_info (PInt 100) (PInt 0)) = ([], Some ZeroDivisionError)
   \<and> snd (dashboard zero_close_provider sample_now ui_aapl) = Some ZeroDivisionError
   \<and> price_delta [(''currentPrice'', PInt 100)] (PInt 100) = Inr None"
  by code_simp

end
